theory Spec2Isabelle
  imports Complex_Main
begin

section \<open>Python string primitives used by the agents\<close>

text \<open>
  Response texts are Python \<open>str\<close> values.  They are modelled as \<open>string\<close>, one
  \<open>char\<close> per code point, for texts whose code points are below 256.  On that range
  the classifications below are those of CPython: \<open>str.isspace\<close> for \<open>strip()\<close>
  and the regular expression class \<open>\s\<close>, and \<open>str.isalnum\<close> or underscore for
  the class \<open>\w\<close> that decides the word boundary \<open>\b\<close>.
\<close>

definition py_isspace :: "char \<Rightarrow> bool" where
  "py_isspace c =
     (let n = (of_char c :: nat)
      in (9 \<le> n \<and> n \<le> 13) \<or> (28 \<le> n \<and> n \<le> 32) \<or> n = 133 \<or> n = 160)"

definition py_isword :: "char \<Rightarrow> bool" where
  "py_isword c =
     (let n = (of_char c :: nat)
      in (48 \<le> n \<and> n \<le> 57) \<or> (65 \<le> n \<and> n \<le> 90) \<or> n = 95 \<or> (97 \<le> n \<and> n \<le> 122)
         \<or> n = 170 \<or> n = 178 \<or> n = 179 \<or> n = 181 \<or> n = 185 \<or> n = 186
         \<or> (188 \<le> n \<and> n \<le> 190) \<or> (192 \<le> n \<and> n \<le> 214)
         \<or> (216 \<le> n \<and> n \<le> 246) \<or> (248 \<le> n \<and> n \<le> 255))"

definition py_lower :: "char \<Rightarrow> char" where
  \<comment> \<open>case folding as \<open>re.IGNORECASE\<close> needs it for patterns of ASCII letters\<close>
  "py_lower c =
     (let n = (of_char c :: nat) in if 65 \<le> n \<and> n \<le> 90 then char_of (n + 32) else c)"

definition py_strip :: "string \<Rightarrow> string" where
  "py_strip s = rev (dropWhile py_isspace (rev (dropWhile py_isspace s)))"

definition startswith :: "string \<Rightarrow> string \<Rightarrow> bool" where
  "startswith s p = (take (length p) s = p)"

text \<open>\<open>s.split(sep)\<close> for a separator of one character: never an empty list.\<close>

fun split_char :: "char \<Rightarrow> string \<Rightarrow> string list" where
  "split_char sep [] = [[]]"
| "split_char sep (c # cs) =
     (if c = sep then [] # split_char sep cs
      else (case split_char sep cs of
              [] \<Rightarrow> [[c]]
            | p # ps \<Rightarrow> (c # p) # ps))"

text \<open>
  \<open>s.split(sep)\<close> for a separator of several characters: the text is cut at the
  leftmost occurrences of \<open>sep\<close>, which do not overlap.
\<close>

fun split_str :: "string \<Rightarrow> string \<Rightarrow> string list" where
  "split_str sep [] = [[]]"
| "split_str sep (c # cs) =
     (if sep \<noteq> [] \<and> startswith (c # cs) sep
      then [] # split_str sep (drop (length sep - 1) cs)
      else (case split_str sep cs of
              [] \<Rightarrow> [[c]]
            | p # ps \<Rightarrow> (c # p) # ps))"

text \<open>\<open>sub in s\<close> on strings.\<close>

fun contains :: "string \<Rightarrow> string \<Rightarrow> bool" where
  "contains [] sub = (sub = [])"
| "contains (c # cs) sub = (startswith (c # cs) sub \<or> contains cs sub)"

text \<open>\<open>s.replace(old, new)\<close>: every occurrence, left to right, without overlap.\<close>

fun py_replace :: "string \<Rightarrow> string \<Rightarrow> string \<Rightarrow> string" where
  "py_replace old new [] = []"
| "py_replace old new (c # cs) =
     (if old \<noteq> [] \<and> startswith (c # cs) old
      then new @ py_replace old new (drop (length old - 1) cs)
      else c # py_replace old new cs)"

section \<open>Regular expressions of the fallback\<close>

text \<open>
  The patterns have the shape \<open>\b(v1|v2|...)\b.+\<close> with \<open>re.IGNORECASE\<close>.  Every
  verb starts and ends with a letter, so the first \<open>\b\<close> asks for no word character
  before the verb, and the second \<open>\b\<close> together with \<open>.+\<close> asks for a next
  character that is neither a word character nor a newline.  \<open>.+\<close> is greedy and
  runs to the end of the line, so \<open>group(0)\<close> is the text from the verb to the end
  of its line whichever alternative matched.
\<close>

definition prefix_ci :: "string \<Rightarrow> string \<Rightarrow> bool" where
  "prefix_ci v s = (map py_lower (take (length v) s) = v)"

definition verb_here :: "string list \<Rightarrow> char option \<Rightarrow> string \<Rightarrow> bool" where
  "verb_here verbs prev s =
     ((case prev of None \<Rightarrow> True | Some p \<Rightarrow> \<not> py_isword p)
      \<and> list_ex (\<lambda>v. prefix_ci v s
            \<and> (case drop (length v) s of
                  [] \<Rightarrow> False
                | n # _ \<Rightarrow> \<not> py_isword n \<and> n \<noteq> CHR 0x0A)) verbs)"

fun search_from :: "string list \<Rightarrow> char option \<Rightarrow> string \<Rightarrow> string option" where
  "search_from verbs prev [] = None"
| "search_from verbs prev (c # cs) =
     (if verb_here verbs prev (c # cs)
      then Some (takeWhile (\<lambda>x. x \<noteq> CHR 0x0A) (c # cs))
      else search_from verbs (Some c) cs)"

definition search_verbs :: "string list \<Rightarrow> string \<Rightarrow> string option" where
  "search_verbs verbs text = search_from verbs None text"

definition alfworld_verbs :: "string list" where
  "alfworld_verbs = [''go to'', ''take'', ''put'', ''open'', ''close'', ''clean'', ''heat'',
     ''cool'', ''toggle'', ''use'', ''look'', ''inventory'']"

definition sciworld_verbs :: "string list" where
  "sciworld_verbs = [''look around'', ''go to'', ''pick up'', ''put down'', ''put'', ''pour'',
     ''open'', ''close'', ''activate'', ''deactivate'', ''focus on'', ''wait'', ''mix'',
     ''connect'', ''use'', ''read'', ''examine'']"

text \<open>
  The WebShop pattern \<open>(search\[.+?\]|click\[.+?\]|back)\<close>: \<open>.+?\<close> takes at least
  one character other than a newline (a closing bracket included) and stops at the
  first closing bracket after it.
\<close>

fun lazy_to_bracket :: "string \<Rightarrow> string option" where
  "lazy_to_bracket [] = None"
| "lazy_to_bracket (c # cs) =
     (if c = CHR '']'' then Some [c]
      else if c = CHR 0x0A then None
      else map_option ((#) c) (lazy_to_bracket cs))"

definition bracketed :: "string \<Rightarrow> string \<Rightarrow> string option" where
  "bracketed kw s =
     (if prefix_ci kw s
      then (case drop (length kw) s of
              [] \<Rightarrow> None
            | c # cs \<Rightarrow>
                if c = CHR 0x0A then None
                else map_option (\<lambda>r. take (length kw) s @ c # r) (lazy_to_bracket cs))
      else None)"

definition webshop_here :: "string \<Rightarrow> string option" where
  "webshop_here s =
     (case bracketed ''search['' s of
        Some m \<Rightarrow> Some m
      | None \<Rightarrow>
          (case bracketed ''click['' s of
             Some m \<Rightarrow> Some m
           | None \<Rightarrow> if prefix_ci ''back'' s then Some (take 4 s) else None))"

fun search_webshop :: "string \<Rightarrow> string option" where
  "search_webshop [] = None"
| "search_webshop (c # cs) =
     (case webshop_here (c # cs) of
        Some m \<Rightarrow> Some m
      | None \<Rightarrow> search_webshop cs)"

section \<open>Thought/action extraction\<close>

text \<open>
  \<open>ZipActAgent._parse_thought_action\<close> and \<open>ReActAgent._parse_thought_action\<close>
  are the same code; \<open>ObservationMaskingAgent._parse_thought_action\<close> differs only
  in choosing the fallback pattern by environment.  The loop keeps the last
  \<open>Thought:\<close> line and the last \<open>Action:\<close> line; the action starts as \<open>look\<close>.
\<close>

definition scan_line :: "string \<times> string \<Rightarrow> string \<Rightarrow> string \<times> string" where
  "scan_line ta raw =
     (let line = py_strip raw
      in if startswith line ''Thought:''
         then (py_strip (py_replace ''Thought:'' '''' line), snd ta)
         else if startswith line ''Action:''
         then (fst ta, py_strip (py_replace ''Action:'' '''' line))
         else ta)"

definition scan_lines :: "string \<Rightarrow> string \<times> string" where
  "scan_lines text = foldl scan_line ('''', ''look'') (split_char (CHR 0x0A) (py_strip text))"

definition fallback :: "(string \<Rightarrow> string option) \<Rightarrow> string \<Rightarrow> string \<times> string \<Rightarrow> string \<times> string" where
  "fallback search text ta =
     (if fst ta = [] \<and> snd ta = []
      then (py_strip text, (case search text of Some m \<Rightarrow> py_strip m | None \<Rightarrow> snd ta))
      else ta)"

definition parse_thought_action :: "string \<Rightarrow> string \<times> string" where
  "parse_thought_action text = fallback (search_verbs alfworld_verbs) text (scan_lines text)"

definition env_search :: "string \<Rightarrow> string \<Rightarrow> string option" where
  "env_search environment =
     (if environment = ''webshop'' then search_webshop
      else if environment = ''sciworld'' then search_verbs sciworld_verbs
      else search_verbs alfworld_verbs)"

definition om_parse_thought_action :: "string \<Rightarrow> string \<Rightarrow> string \<times> string" where
  "om_parse_thought_action environment text =
     fallback (env_search environment) text (scan_lines text)"

text \<open>What the claim about the fallback asks of a text with no prefixed line.\<close>

definition spec_fallback_result :: "string \<Rightarrow> string \<times> string" where
  "spec_fallback_result text =
     (py_strip text,
      (case search_verbs alfworld_verbs text of Some m \<Rightarrow> py_strip m | None \<Rightarrow> ''look''))"

section \<open>The LLM client\<close>

record llm_client =
  total_input_tokens :: nat
  total_output_tokens :: nat
  call_count :: nat

text \<open>
  The outcome of \<open>client.chat.completions.create\<close>: it raises, or it returns a
  response with an optional usage record (prompt and completion tokens) and the
  contents of its choices.
\<close>

datatype api_outcome =
  ApiRaises string
| ApiReturns "(nat \<times> nat) option" "string list"

type_synonym message = "(string \<times> string) list"

definition new_client :: llm_client where
  "new_client = \<lparr>total_input_tokens = 0, total_output_tokens = 0, call_count = 0\<rparr>"

text \<open>\<open>_count_tokens\<close>; the tokenizer is a parameter, \<open>enc v\<close> being \<open>len(encode(v))\<close>.\<close>

definition count_tokens :: "(string \<Rightarrow> nat) \<Rightarrow> message list \<Rightarrow> nat" where
  "count_tokens enc messages =
     foldl (\<lambda>n m. foldl (\<lambda>k kv. k + enc (snd kv)) (n + 4) m) 0 messages + 2"

definition add_usage :: "llm_client \<Rightarrow> nat \<Rightarrow> nat \<Rightarrow> llm_client" where
  "add_usage c i out =
     c\<lparr>total_input_tokens := total_input_tokens c + i,
       total_output_tokens := total_output_tokens c + out\<rparr>"

text \<open>
  \<open>LLMClient.chat\<close>: the call is counted first; every \<open>Exception\<close> of the body,
  the \<open>IndexError\<close> of \<open>choices[0]\<close> included, ends in the empty string.
\<close>

definition chat :: "(string \<Rightarrow> nat) \<Rightarrow> llm_client \<Rightarrow> message list \<Rightarrow> api_outcome \<Rightarrow> string \<times> llm_client" where
  "chat enc c messages outcome =
     (let c1 = c\<lparr>call_count := call_count c + 1\<rparr>
      in case outcome of
           ApiRaises e \<Rightarrow> ('''', c1)
         | ApiReturns usage choices \<Rightarrow>
             (case usage of
                Some (i, out) \<Rightarrow>
                  (case choices of
                     [] \<Rightarrow> ('''', add_usage c1 i out)
                   | content # _ \<Rightarrow> (content, add_usage c1 i out))
              | None \<Rightarrow>
                  (case choices of
                     [] \<Rightarrow> ('''', c1)
                   | content # _ \<Rightarrow>
                       (content,
                        add_usage c1 (count_tokens enc messages)
                          (count_tokens enc [[(''role'', ''assistant''), (''content'', content)]])))))"

definition get_token_usage :: "llm_client \<Rightarrow> (string \<times> nat) list" where
  "get_token_usage c =
     [(''input_tokens'', total_input_tokens c),
      (''output_tokens'', total_output_tokens c),
      (''total_tokens'', total_input_tokens c + total_output_tokens c)]"

definition reset_token_count :: "llm_client \<Rightarrow> llm_client" where
  "reset_token_count c = c\<lparr>total_input_tokens := 0, total_output_tokens := 0, call_count := 0\<rparr>"

section \<open>Agents with a step limit\<close>

datatype py_error =
  StopIteration | UnboundLocalError | KeyError | TypeError | AttributeError

text \<open>
  \<open>BaseAgent\<close>: the fields every agent has, and \<open>core\<close> for what a strategy adds.
\<close>

record 'a agent =
  current_step :: nat
  max_steps :: int
  last_thought :: string
  core :: 'a

definition is_step_limit_reached :: "'a agent \<Rightarrow> bool" where
  "is_step_limit_reached ag = (int (current_step ag) \<ge> max_steps ag)"

text \<open>
  Every strategy's \<open>step\<close> starts the same way: it raises \<open>StopIteration\<close> at the
  limit, counts the step, and then decides.  \<open>decide\<close> is the strategy's own part,
  giving the thought, the action and its new fields, or the exception it raises.  Every
  strategy's \<open>reset\<close> sets the counter to zero and the last thought to the empty
  string; the strategy's own part may raise.  \<open>get_state\<close> gives the state that
  \<open>log_step\<close> stores, \<open>None\<close> when the agent has no such method or its state is
  falsy, or the exception the method raises.
\<close>

record ('a, 's) agent_ops =
  core_reset :: "'a \<Rightarrow> string \<Rightarrow> py_error + 'a"
  decide :: "'a \<Rightarrow> string \<Rightarrow> py_error + (string \<times> string \<times> 'a)"
  get_state :: "'a \<Rightarrow> py_error + 's option"

definition agent_reset :: "('a, 's) agent_ops \<Rightarrow> 'a agent \<Rightarrow> string \<Rightarrow> py_error + 'a agent" where
  "agent_reset A ag instruction =
     (case core_reset A (core ag) instruction of
        Inl e \<Rightarrow> Inl e
      | Inr c \<Rightarrow> Inr (ag\<lparr>current_step := 0, last_thought := '''', core := c\<rparr>))"

definition agent_step :: "('a, 's) agent_ops \<Rightarrow> 'a agent \<Rightarrow> string \<Rightarrow> py_error + (string \<times> 'a agent)" where
  "agent_step A ag obs =
     (if is_step_limit_reached ag then Inl StopIteration
      else (case decide A (core ag) obs of
              Inl e \<Rightarrow> Inl e
            | Inr (th, act, c) \<Rightarrow>
                Inr (act, ag\<lparr>current_step := current_step ag + 1, last_thought := th, core := c\<rparr>)))"

section \<open>The logger\<close>

text \<open>
  The JSONL file holds the episodes in the order they were ended, so the list
  \<open>episodes\<close> stands for it too.  Time stamps are left out.
\<close>

record 's step_data =
  sd_step :: nat
  sd_observation :: string
  sd_thought :: string
  sd_action :: string
  sd_state :: "'s option"

record 's episode =
  ep_id :: "nat option"
  ep_task :: string
  ep_steps :: "'s step_data list"
  ep_success :: bool
  ep_reward :: real
  ep_num_steps :: nat
  ep_token_usage :: "(string \<times> nat) list"

record 's logger =
  episodes :: "'s episode list"
  current_episode :: "'s episode option"

definition new_logger :: "'s logger" where
  "new_logger = \<lparr>episodes = [], current_episode = None\<rparr>"

definition start_episode :: "'s logger \<Rightarrow> string \<Rightarrow> nat option \<Rightarrow> 's logger" where
  "start_episode lg task eid =
     lg\<lparr>current_episode := Some \<lparr>ep_id = eid, ep_task = task, ep_steps = [], ep_success = False,
                               ep_reward = 0, ep_num_steps = 0, ep_token_usage = []\<rparr>\<rparr>"

definition log_step :: "'s logger \<Rightarrow> nat \<Rightarrow> string \<Rightarrow> string \<Rightarrow> string \<Rightarrow> 's option \<Rightarrow> 's logger" where
  "log_step lg n obs th act st =
     (case current_episode lg of
        None \<Rightarrow> lg
      | Some ep \<Rightarrow>
          lg\<lparr>current_episode :=
               Some (ep\<lparr>ep_steps := ep_steps ep @
                  [\<lparr>sd_step = n, sd_observation = obs, sd_thought = th, sd_action = act,
                    sd_state = st\<rparr>]\<rparr>)\<rparr>)"

definition end_episode :: "'s logger \<Rightarrow> bool \<Rightarrow> real \<Rightarrow> (string \<times> nat) list \<Rightarrow> 's logger" where
  "end_episode lg succ rew usage =
     (case current_episode lg of
        None \<Rightarrow> lg
      | Some ep \<Rightarrow>
          lg\<lparr>episodes := episodes lg @
                 [ep\<lparr>ep_success := succ, ep_reward := rew, ep_num_steps := length (ep_steps ep),
                     ep_token_usage := usage\<rparr>],
             current_episode := None\<rparr>)"

text \<open>\<open>d.get(key, 0)\<close> on a dictionary of counts.\<close>

definition get_or_zero :: "(string \<times> nat) list \<Rightarrow> string \<Rightarrow> nat" where
  "get_or_zero d k = (case map_of d k of None \<Rightarrow> 0 | Some v \<Rightarrow> v)"

text \<open>
  Floating-point arithmetic is not fixed here.  \<open>true_div a b\<close> stands for the float that
  Python's \<open>a / b\<close> yields for the integers \<open>a\<close> and \<open>b\<close>, and \<open>reward_mean rs n\<close> for
  the float that \<open>sum(rs) / n\<close> yields for the rewards \<open>rs\<close>; \<open>'f\<close> is the type of
  floats.  A summary value is an \<open>int\<close> or a float, as the expression
  \<open>a / b if b > 0 else 0\<close> can give either.
\<close>

record 'f float_ops =
  true_div :: "nat \<Rightarrow> nat \<Rightarrow> 'f"
  reward_mean :: "real list \<Rightarrow> nat \<Rightarrow> 'f"

datatype 'f number = IntNum int | FloatNum 'f

record 'f summary =
  sm_total_episodes :: nat
  sm_successful_episodes :: nat
  sm_success_rate :: "'f number"
  sm_avg_steps :: 'f
  sm_avg_reward :: 'f
  sm_total_input_tokens :: nat
  sm_total_output_tokens :: nat
  sm_total_tokens :: nat
  sm_avg_tokens_per_episode :: "'f number"

text \<open>
  \<open>Logger.save_summary\<close>, the summary it writes and returns; \<open>None\<close> when there is
  no episode.
\<close>

definition save_summary :: "'f float_ops \<Rightarrow> 's logger \<Rightarrow> 'f summary option" where
  "save_summary F lg =
     (if episodes lg = [] then None
      else
        (let total_episodes = length (episodes lg);
             successful_episodes = sum_list (map (\<lambda>ep. 1) (filter ep_success (episodes lg)));
             success_rate = (if total_episodes > 0
                             then FloatNum (true_div F successful_episodes total_episodes)
                             else IntNum 0);
             avg_steps = true_div F (sum_list (map ep_num_steps (episodes lg))) total_episodes;
             avg_reward = reward_mean F (map ep_reward (episodes lg)) total_episodes;
             tin = sum_list (map (\<lambda>ep. get_or_zero (ep_token_usage ep) ''input_tokens'') (episodes lg));
             tout = sum_list (map (\<lambda>ep. get_or_zero (ep_token_usage ep) ''output_tokens'') (episodes lg));
             total_tokens = tin + tout
         in Some \<lparr>sm_total_episodes = total_episodes,
                  sm_successful_episodes = successful_episodes,
                  sm_success_rate = success_rate,
                  sm_avg_steps = avg_steps,
                  sm_avg_reward = avg_reward,
                  sm_total_input_tokens = tin,
                  sm_total_output_tokens = tout,
                  sm_total_tokens = total_tokens,
                  sm_avg_tokens_per_episode =
                    (if total_episodes > 0
                     then FloatNum (true_div F total_tokens total_episodes) else IntNum 0)\<rparr>))"

section \<open>Running one episode\<close>


text \<open>
  What an episode leaves: what \<open>run_episode\<close> returns or raises, and, for stating
  properties of the run, the number of \<open>agent.step\<close> invocations, the reward and
  \<open>done\<close> flag of each \<open>env.step\<close> that returned, in order, the logger and the agent.
  When a call raises, the logger and the agent are those of the last call that returned:
  what the raising call had changed before it raised is not recorded.
\<close>

record ('a, 's) run =
  outcome :: "py_error + (bool \<times> real \<times> nat)"
  step_calls :: nat
  env_trace :: "(real \<times> bool) list"
  run_logger :: "'s logger option"
  run_agent :: "'a agent"




section \<open>The experiment's main loop\<close>

text \<open>
  An episode reaches the client only through \<open>chat\<close> and the logger only through
  \<open>start_episode\<close> and \<open>log_step\<close>.  For the main loop an episode is therefore its
  task, the chat calls it makes, the steps it logs, and what \<open>run_episode\<close> returns or
  raises.  An exception leaves \<open>main\<close>, so no later episode starts.
\<close>

record 's activity =
  act_task :: string
  act_calls :: "(message list \<times> api_outcome) list"
  act_logged :: "'s step_data list"
  act_result :: "py_error + (bool \<times> real \<times> nat)"

definition chat_all :: "(string \<Rightarrow> nat) \<Rightarrow> llm_client \<Rightarrow> (message list \<times> api_outcome) list \<Rightarrow> llm_client" where
  "chat_all enc c calls = foldl (\<lambda>c call. snd (chat enc c (fst call) (snd call))) c calls"

definition log_all :: "'s logger \<Rightarrow> 's step_data list \<Rightarrow> 's logger" where
  "log_all lg sds =
     foldl (\<lambda>l sd. log_step l (sd_step sd) (sd_observation sd) (sd_thought sd) (sd_action sd)
                     (sd_state sd)) lg sds"

fun main_loop ::
  "(string \<Rightarrow> nat) \<Rightarrow> nat \<Rightarrow> llm_client \<Rightarrow> 's logger \<Rightarrow> 's activity list \<Rightarrow>
   py_error + (llm_client \<times> 's logger)" where
  "main_loop enc i llm lg [] = Inr (llm, lg)"
| "main_loop enc i llm lg (a # as) =
     (let lg1 = log_all (start_episode lg (act_task a) (Some (i + 1))) (act_logged a);
          llm1 = chat_all enc llm (act_calls a)
      in case act_result a of
           Inl e \<Rightarrow> Inl e
         | Inr (succ, rew, steps) \<Rightarrow>
             main_loop enc (i + 1) (reset_token_count llm1)
               (end_episode lg1 succ rew (get_token_usage llm1)) as)"

section \<open>The observation-masking agent\<close>

record om_core =
  environment :: string
  keep_recent :: int
  observations :: "string list"
  thoughts :: "string list"
  actions :: "string list"
  instruction :: string

text \<open>\<open>str(n)\<close> for a number that is not negative.\<close>

fun str_nat :: "nat \<Rightarrow> string" where
  "str_nat n =
     (if n < 10 then [''0123456789'' ! n] else str_nat (n div 10) @ [''0123456789'' ! (n mod 10)])"

declare str_nat.simps [simp del]

definition masked :: string where
  "masked = ''[Observation masked]''"

text \<open>The body of the loop over \<open>range(len(self.observations))\<close>, for index \<open>i\<close>.\<close>

definition history_entry :: "om_core \<Rightarrow> nat \<Rightarrow> string list" where
  "history_entry c i =
     (let step_num = i + 1;
          obs_text = (if int i < int (length (observations c)) - keep_recent c
                      then masked else observations c ! i)
      in [''Observation '' @ str_nat step_num @ '': '' @ obs_text]
         @ (if i < length (thoughts c)
            then [''Thought '' @ str_nat step_num @ '': '' @ thoughts c ! i] else [])
         @ (if i < length (actions c)
            then [''Action '' @ str_nat step_num @ '': '' @ actions c ! i] else []))"

definition history_parts :: "om_core \<Rightarrow> string list" where
  "history_parts c = concat (map (history_entry c) [0..<length (observations c)])"

fun join_lines :: "string list \<Rightarrow> string" where
  "join_lines [] = []"
| "join_lines [l] = l"
| "join_lines (l # ls) = l @ CHR 0x0A # join_lines ls"

text \<open>
  The strategy's part of \<open>ObservationMaskingAgent.step\<close>.  \<open>respond\<close> stands for the
  prompt template and the chat call: it maps the instruction and the history string to
  the response text.
\<close>

definition om_decide ::
  "(string \<Rightarrow> string \<Rightarrow> string) \<Rightarrow> om_core \<Rightarrow> string \<Rightarrow> py_error + (string \<times> string \<times> om_core)" where
  "om_decide respond c obs =
     (let c1 = c\<lparr>observations := observations c @ [obs]\<rparr>;
          response = respond (instruction c1) (join_lines (history_parts c1));
          ta = om_parse_thought_action (environment c1) response
      in Inr (fst ta, snd ta,
              c1\<lparr>thoughts := thoughts c1 @ [fst ta], actions := actions c1 @ [snd ta]\<rparr>))"

definition om_core_reset :: "om_core \<Rightarrow> string \<Rightarrow> py_error + om_core" where
  "om_core_reset c instr =
     Inr (c\<lparr>instruction := instr, observations := [], thoughts := [], actions := []\<rparr>)"

definition om_ops :: "(string \<Rightarrow> string \<Rightarrow> string) \<Rightarrow> (om_core, 's) agent_ops" where
  "om_ops respond =
     \<lparr>core_reset = om_core_reset, decide = om_decide respond, get_state = (\<lambda>c. Inr None)\<rparr>"

text \<open>The agent after \<open>reset\<close> and one \<open>step\<close> for each observation of a list.\<close>

fun om_steps :: "(string \<Rightarrow> string \<Rightarrow> string) \<Rightarrow> om_core agent \<Rightarrow> string list \<Rightarrow> py_error + om_core agent" where
  "om_steps respond ag [] = Inr ag"
| "om_steps respond ag (obs # rest) =
     (case agent_step (om_ops respond :: (om_core, unit) agent_ops) ag obs of
        Inl e \<Rightarrow> Inl e
      | Inr (act, ag1) \<Rightarrow> om_steps respond ag1 rest)"

section \<open>Concrete inputs\<close>

text \<open>
  A logger with two ended episodes, built with the logger's own operations, and the
  activities of two episodes of the main loop, the first with a chat call that raises.
\<close>

definition quotient_ops :: "(nat \<times> nat) float_ops" where
  \<comment> \<open>a float named by the operands of the division that yields it\<close>
  "quotient_ops = \<lparr>true_div = (\<lambda>a b. (a, b)), reward_mean = (\<lambda>rs n. (length rs, n))\<rparr>"

definition demo_logger :: "unit logger" where
  "demo_logger =
     end_episode
       (log_step
          (start_episode
             (end_episode
                (log_step (log_step (start_episode new_logger ''t1'' (Some 1)) 1 ''o'' ''th'' ''look'' None)
                   2 ''o2'' ''th2'' ''take mug 1'' None)
                True 1 [(''input_tokens'', 30), (''output_tokens'', 10), (''total_tokens'', 40)])
             ''t2'' (Some 2))
          1 ''o'' ''th'' ''look'' None)
       False 0 [(''input_tokens'', 50), (''output_tokens'', 20), (''total_tokens'', 70)]"

definition demo_acts :: "unit activity list" where
  "demo_acts =
     [\<lparr>act_task = ''t1'',
       act_calls = [([[(''role'', ''user''), (''content'', ''p'')]], ApiReturns (Some (30, 10)) [''Action: look'']),
                    ([[(''role'', ''user''), (''content'', ''q'')]], ApiRaises ''timeout'')],
       act_logged = [], act_result = Inr (True, 1, 2)\<rparr>,
      \<lparr>act_task = ''t2'',
       act_calls = [([[(''role'', ''user''), (''content'', ''p'')]], ApiReturns (Some (50, 20)) [''Action: look''])],
       act_logged = [], act_result = Inr (False, 0, 1)\<rparr>]"





section \<open>Python values read from JSON\<close>

text \<open>
  The agent state is whatever \<open>json.loads\<close> returned: \<open>None\<close>, a bool, an int, a
  float, a string, a list or a dictionary.  A dictionary keeps its keys in insertion
  order and is an association list with distinct keys.
\<close>

datatype pyfloat = PyFloat real | PyNaN | PyInf | PyNegInf

datatype json =
  JNull
| JBool bool
| JInt int
| JFloat pyfloat
| JStr string
| JArr "json list"
| JObj "(string \<times> json) list"

text \<open>\<open>d[k] = v\<close> on a dictionary: in place for a key it has, at the end otherwise.\<close>

fun dict_set :: "(string \<times> json) list \<Rightarrow> string \<Rightarrow> json \<Rightarrow> (string \<times> json) list" where
  "dict_set [] k v = [(k, v)]"
| "dict_set (p # ps) k v = (if fst p = k then (k, v) # ps else p # dict_set ps k v)"

text \<open>Truth value of an object, as \<open>if x:\<close> and \<open>not x\<close> take it.\<close>

fun truthy :: "json \<Rightarrow> bool" where
  "truthy JNull = False"
| "truthy (JBool b) = b"
| "truthy (JInt i) = (i \<noteq> 0)"
| "truthy (JFloat f) = (f \<noteq> PyFloat 0)"
| "truthy (JStr s) = (s \<noteq> [])"
| "truthy (JArr xs) = (xs \<noteq> [])"
| "truthy (JObj kvs) = (kvs \<noteq> [])"

text \<open>
  \<open>k in x\<close> for a string \<open>k\<close>: a key of a dictionary, an element of a list, a
  substring of a string; anything else is not iterable.
\<close>

fun py_in :: "string \<Rightarrow> json \<Rightarrow> py_error + bool" where
  "py_in k (JObj kvs) = Inr (k \<in> set (map fst kvs))"
| "py_in k (JArr xs) = Inr (JStr k \<in> set xs)"
| "py_in k (JStr s) = Inr (contains s k)"
| "py_in k x = Inl TypeError"

text \<open>\<open>x[k]\<close> for a string \<open>k\<close>.\<close>

fun py_getitem :: "json \<Rightarrow> string \<Rightarrow> py_error + json" where
  "py_getitem (JObj kvs) k = (case map_of kvs k of None \<Rightarrow> Inl KeyError | Some v \<Rightarrow> Inr v)"
| "py_getitem x k = Inl TypeError"

text \<open>\<open>x[k] = v\<close> for a string \<open>k\<close>.\<close>

fun py_setitem :: "json \<Rightarrow> string \<Rightarrow> json \<Rightarrow> py_error + json" where
  "py_setitem (JObj kvs) k v = Inr (JObj (dict_set kvs k v))"
| "py_setitem x k v = Inl TypeError"

text \<open>\<open>x.get(k, d)\<close>: only a dictionary has the method.\<close>

fun py_get :: "json \<Rightarrow> string \<Rightarrow> json \<Rightarrow> py_error + json" where
  "py_get (JObj kvs) k d = (case map_of kvs k of None \<Rightarrow> Inr d | Some v \<Rightarrow> Inr v)"
| "py_get x k d = Inl AttributeError"

text \<open>\<open>x.append(v)\<close>: only a list has the method.\<close>

fun py_append :: "json \<Rightarrow> json \<Rightarrow> py_error + json" where
  "py_append (JArr xs) v = Inr (JArr (xs @ [v]))"
| "py_append x v = Inl AttributeError"

text \<open>Sequencing of steps that may raise.\<close>

definition then_do :: "py_error + 'a \<Rightarrow> ('a \<Rightarrow> py_error + 'b) \<Rightarrow> py_error + 'b" where
  "then_do m f = (case m of Inl e \<Rightarrow> Inl e | Inr x \<Rightarrow> f x)"

section \<open>The state-compression agent\<close>

definition get_empty_state :: json where
  "get_empty_state =
     JObj [(''goal_state'',
              JObj [(''global_instruction'', JStr ''''), (''sub_goal_queue'', JArr []),
                    (''current_objective'', JStr '''')]),
           (''world_state'',
              JObj [(''location'', JStr ''unknown''), (''inventory'', JArr []),
                    (''entity_map'', JObj []), (''discovered_objects'', JArr [])]),
           (''constraint_state'',
              JObj [(''negative_constraints'', JArr []), (''visited_locations'', JArr []),
                    (''attempted_actions'', JArr [])])]"

text \<open>
  The block extraction of \<open>_parse_json\<close>.  \<open>None\<close> stands for the \<open>IndexError\<close> of
  \<open>split(...)[1]\<close>, which the \<open>except\<close> clause would turn into the default.
\<close>

definition between_fences :: "string \<Rightarrow> string \<Rightarrow> string option" where
  "between_fences opening text =
     (case split_str opening text of
        _ # part # _ \<Rightarrow>
          (case split_str ''```'' part of
             [] \<Rightarrow> None
           | block # _ \<Rightarrow> Some (py_strip block))
      | _ \<Rightarrow> None)"

definition extract_json :: "string \<Rightarrow> string option" where
  "extract_json text =
     (if contains text ''```json'' then between_fences ''```json'' text
      else if contains text ''```'' then between_fences ''```'' text
      else Some (py_strip text))"

text \<open>
  \<open>re.sub(r',(\s*[}\]])', r'\1', json_str)\<close>: at a comma followed by optional
  whitespace and a closing brace or bracket, the comma is dropped, the whitespace and the
  closer are kept, and the scan goes on after the closer.
\<close>

function sub_trailing_commas :: "string \<Rightarrow> string" where
  "sub_trailing_commas [] = []"
| "sub_trailing_commas (c # cs) =
     (if c = CHR '','' then
        (case dropWhile py_isspace cs of
           [] \<Rightarrow> c # sub_trailing_commas cs
         | b # rest \<Rightarrow>
             if b = CHR ''}'' \<or> b = CHR '']''
             then takeWhile py_isspace cs @ b # sub_trailing_commas rest
             else c # sub_trailing_commas cs)
      else c # sub_trailing_commas cs)"
  by pat_completeness auto

termination
proof (relation "measure length")
  fix c :: char and cs x21 x22
  assume "dropWhile py_isspace cs = x21 # x22"
  then have "length (x21 # x22) \<le> length cs"
    using length_dropWhile_le [of py_isspace cs] by simp
  then show "(x22, c # cs) \<in> measure length" by simp
qed simp_all

text \<open>
  \<open>_parse_json\<close>.  \<open>loads\<close> stands for \<open>json.loads\<close>, \<open>None\<close> when it raises;
  every exception of the body gives the default.
\<close>

definition parse_json :: "(string \<Rightarrow> json option) \<Rightarrow> string \<Rightarrow> json option \<Rightarrow> json" where
  "parse_json loads text dflt =
     (let default = (case dflt of None \<Rightarrow> JObj [] | Some d \<Rightarrow> d)
      in case extract_json text of
           None \<Rightarrow> default
         | Some json_str \<Rightarrow>
             (case loads (sub_trailing_commas json_str) of
                None \<Rightarrow> default
              | Some v \<Rightarrow> v))"

text \<open>
  The tracking block of \<open>_update_state\<close>, run when the last action is not empty.  The
  source mutates the nested objects in place; here each changed object is stored back.
\<close>

definition track_action :: "json \<Rightarrow> string \<Rightarrow> py_error + json" where
  "track_action st a =
     then_do (py_in ''constraint_state'' st) (\<lambda>has_cs.
     then_do (if has_cs then Inr st
              else py_setitem st ''constraint_state''
                     (JObj [(''attempted_actions'', JArr []), (''negative_constraints'', JArr []),
                            (''visited_locations'', JArr [])])) (\<lambda>st1.
     then_do (py_getitem st1 ''constraint_state'') (\<lambda>cs.
     then_do (py_in ''attempted_actions'' cs) (\<lambda>has_aa.
     then_do (if has_aa then Inr cs else py_setitem cs ''attempted_actions'' (JArr [])) (\<lambda>cs1.
     then_do (py_getitem cs1 ''attempted_actions'') (\<lambda>aa.
     then_do (py_in a aa) (\<lambda>seen.
     then_do (if seen then Inr aa else py_append aa (JStr a)) (\<lambda>aa1.
     then_do (py_setitem cs1 ''attempted_actions'' aa1) (\<lambda>cs2.
       py_setitem st1 ''constraint_state'' cs2)))))))))"

text \<open>
  \<open>_update_state\<close>: the state after the call, or the exception.  \<open>response\<close> is the
  text \<open>llm.chat\<close> returned for the updater prompt.
\<close>

definition update_state ::
  "(string \<Rightarrow> json option) \<Rightarrow> json \<Rightarrow> string option \<Rightarrow> string \<Rightarrow> py_error + json" where
  "update_state loads st last_action response =
     then_do (case last_action of
                None \<Rightarrow> Inr st
              | Some a \<Rightarrow> if a = [] then Inr st else track_action st a) (\<lambda>st1.
       (let new_state = parse_json loads response (Some st1)
        in if truthy new_state
           then then_do (py_in ''constraint_state'' new_state) (\<lambda>has_cs.
                  if has_cs
                  then then_do (py_get st1 ''constraint_state'' (JObj [])) (\<lambda>old_cs.
                       then_do (py_get old_cs ''attempted_actions'' (JArr [])) (\<lambda>aa.
                       then_do (py_getitem new_state ''constraint_state'') (\<lambda>new_cs.
                       then_do (py_setitem new_cs ''attempted_actions'' aa) (\<lambda>new_cs1.
                         py_setitem new_state ''constraint_state'' new_cs1))))
                  else Inr new_state)
           else Inr st1))"

text \<open>
  The state part of \<open>ZipActAgent.reset\<close>; \<open>response\<close> is the text \<open>llm.chat\<close>
  returned for the initialisation prompt.
\<close>

definition zipact_reset :: "(string \<Rightarrow> json option) \<Rightarrow> string \<Rightarrow> string \<Rightarrow> py_error + json" where
  "zipact_reset loads instr response =
     (let st = parse_json loads response (Some get_empty_state)
      in then_do (py_get st ''goal_state'' (JObj [])) (\<lambda>gs.
         then_do (py_get gs ''global_instruction'' JNull) (\<lambda>gi.
           if \<not> truthy gi
           then then_do (py_getitem st ''goal_state'') (\<lambda>g.
                then_do (py_setitem g ''global_instruction'' (JStr instr)) (\<lambda>g1.
                  py_setitem st ''goal_state'' g1))
           else Inr st)))"

section \<open>A reader for JSON texts\<close>

text \<open>
  \<open>json_loads\<close> stands for \<open>json.loads\<close> on the texts of the concrete runs below.
  It reads objects, arrays, strings with the one-letter escapes, integers and the three
  literals, as \<open>json.loads\<close> does; a repeated key keeps its first place and its last
  value.  It gives \<open>None\<close> where \<open>json.loads\<close> raises, and also for what it does
  not cover: numbers with a fraction or an exponent, \<open>\u\<close> escapes and the literals
  \<open>NaN\<close> and \<open>Infinity\<close>.  The statements about \<open>parse_json\<close> hold for every
  reader and do not depend on it.
\<close>

definition is_json_ws :: "char \<Rightarrow> bool" where
  "is_json_ws c = (c = CHR '' '' \<or> c = CHR 0x09 \<or> c = CHR 0x0A \<or> c = CHR 0x0D)"

definition skip_ws :: "string \<Rightarrow> string" where
  "skip_ws s = dropWhile is_json_ws s"

definition is_digit :: "char \<Rightarrow> bool" where
  "is_digit c = (c \<in> set ''0123456789'')"

definition digit_val :: "char \<Rightarrow> nat" where
  "digit_val c = of_char c - 48"

definition unescape :: "char \<Rightarrow> char option" where
  "unescape e =
     (if e = CHR 0x22 then Some (CHR 0x22)
      else if e = CHR 0x5C then Some (CHR 0x5C)
      else if e = CHR ''/'' then Some (CHR ''/'')
      else if e = CHR ''b'' then Some (CHR 0x08)
      else if e = CHR ''f'' then Some (CHR 0x0C)
      else if e = CHR ''n'' then Some (CHR 0x0A)
      else if e = CHR ''r'' then Some (CHR 0x0D)
      else if e = CHR ''t'' then Some (CHR 0x09)
      else None)"

text \<open>The rest of a string after its opening quote: the content and what follows.\<close>

fun read_string :: "string \<Rightarrow> (string \<times> string) option" where
  "read_string [] = None"
| "read_string [c] = (if c = CHR 0x22 then Some ([], []) else None)"
| "read_string (c # e # cs) =
     (if c = CHR 0x22 then Some ([], e # cs)
      else if c = CHR 0x5C
      then (case unescape e of
              None \<Rightarrow> None
            | Some ch \<Rightarrow> map_option (\<lambda>p. (ch # fst p, snd p)) (read_string cs))
      else if (of_char c :: nat) < 32 then None
      else map_option (\<lambda>p. (c # fst p, snd p)) (read_string (e # cs)))"

definition read_nat :: "string \<Rightarrow> (nat \<times> string) option" where
  "read_nat s =
     (let ds = takeWhile is_digit s
      in if ds = [] then None
         else if hd ds = CHR ''0'' then Some (0, tl s)
         else Some (foldl (\<lambda>n d. 10 * n + digit_val d) 0 ds, dropWhile is_digit s))"

definition read_int :: "string \<Rightarrow> (json \<times> string) option" where
  "read_int s =
     (case (case s of
              [] \<Rightarrow> None
            | c # cs \<Rightarrow> if c = CHR ''-''
                        then map_option (\<lambda>p. (- int (fst p), snd p)) (read_nat cs)
                        else map_option (\<lambda>p. (int (fst p), snd p)) (read_nat s)) of
        None \<Rightarrow> None
      | Some (i, r) \<Rightarrow>
          (case r of
             [] \<Rightarrow> Some (JInt i, r)
           | d # _ \<Rightarrow> if d = CHR ''.'' \<or> d = CHR ''e'' \<or> d = CHR ''E'' then None
                      else Some (JInt i, r)))"

fun read_value :: "nat \<Rightarrow> string \<Rightarrow> (json \<times> string) option"
  and read_elems :: "nat \<Rightarrow> string \<Rightarrow> json list \<Rightarrow> (json \<times> string) option"
  and read_members :: "nat \<Rightarrow> string \<Rightarrow> (string \<times> json) list \<Rightarrow> (json \<times> string) option" where
  "read_value 0 s = None"
| "read_value (Suc n) s =
     (case s of
        [] \<Rightarrow> None
      | c # cs \<Rightarrow>
          if c = CHR 0x22 then map_option (\<lambda>p. (JStr (fst p), snd p)) (read_string cs)
          else if c = CHR ''{''
          then (case skip_ws cs of
                  [] \<Rightarrow> None
                | d # r \<Rightarrow> if d = CHR ''}'' then Some (JObj [], r) else read_members n (d # r) [])
          else if c = CHR ''[''
          then (case skip_ws cs of
                  [] \<Rightarrow> None
                | d # r \<Rightarrow> if d = CHR '']'' then Some (JArr [], r) else read_elems n (d # r) [])
          else if startswith s ''true'' then Some (JBool True, drop 4 s)
          else if startswith s ''false'' then Some (JBool False, drop 5 s)
          else if startswith s ''null'' then Some (JNull, drop 4 s)
          else read_int s)"
| "read_elems 0 s acc = None"
| "read_elems (Suc n) s acc =
     (case read_value n s of
        None \<Rightarrow> None
      | Some (v, r) \<Rightarrow>
          (case skip_ws r of
             [] \<Rightarrow> None
           | d # r2 \<Rightarrow>
               if d = CHR '','' then read_elems n (skip_ws r2) (acc @ [v])
               else if d = CHR '']'' then Some (JArr (acc @ [v]), r2)
               else None))"
| "read_members 0 s acc = None"
| "read_members (Suc n) s acc =
     (case s of
        [] \<Rightarrow> None
      | q # cs \<Rightarrow>
          if q \<noteq> CHR 0x22 then None
          else (case read_string cs of
                  None \<Rightarrow> None
                | Some (k, r) \<Rightarrow>
                    (case skip_ws r of
                       [] \<Rightarrow> None
                     | col # r2 \<Rightarrow>
                         if col \<noteq> CHR '':'' then None
                         else (case read_value n (skip_ws r2) of
                                 None \<Rightarrow> None
                               | Some (v, r3) \<Rightarrow>
                                   (case skip_ws r3 of
                                      [] \<Rightarrow> None
                                    | d # r4 \<Rightarrow>
                                        if d = CHR '','' then read_members n (skip_ws r4) (dict_set acc k v)
                                        else if d = CHR ''}'' then Some (JObj (dict_set acc k v), r4)
                                        else None)))))"

definition json_loads :: "string \<Rightarrow> json option" where
  "json_loads s =
     (case read_value (2 * length s + 2) (skip_ws s) of
        None \<Rightarrow> None
      | Some (v, r) \<Rightarrow> if skip_ws r = [] then Some v else None)"

section \<open>The tracked list of attempted actions\<close>

text \<open>
  The list the calling code tracks: the previous list, with the last action appended
  when it is not empty and not yet listed.
\<close>

definition tracked_list :: "json list \<Rightarrow> string option \<Rightarrow> json list" where
  "tracked_list acts last_action =
     (case last_action of
        None \<Rightarrow> acts
      | Some a \<Rightarrow> if a = [] \<or> JStr a \<in> set acts then acts else acts @ [JStr a])"

text \<open>An object with the list \<open>l\<close> stored under \<open>constraint_state.attempted_actions\<close>.\<close>

definition with_attempted :: "(string \<times> json) list \<Rightarrow> (string \<times> json) list \<Rightarrow> json list \<Rightarrow> json" where
  "with_attempted kvs ckvs l =
     JObj (dict_set kvs ''constraint_state'' (JObj (dict_set ckvs ''attempted_actions'' (JArr l))))"

text \<open>The response does not parse: \<open>_parse_json\<close> falls back to its default.\<close>

definition json_parse_fails :: "(string \<Rightarrow> json option) \<Rightarrow> string \<Rightarrow> bool" where
  "json_parse_fails loads text =
     (case extract_json text of
        None \<Rightarrow> True
      | Some json_str \<Rightarrow> loads (sub_trailing_commas json_str) = None)"

text \<open>The items of the empty state template, named for the concrete runs.\<close>

definition template_constraints :: "(string \<times> json) list" where
  "template_constraints =
     [(''negative_constraints'', JArr []), (''visited_locations'', JArr []),
      (''attempted_actions'', JArr [])]"

definition template_goal :: "(string \<times> json) list" where
  "template_goal =
     [(''global_instruction'', JStr ''''), (''sub_goal_queue'', JArr []),
      (''current_objective'', JStr '''')]"

definition template_items :: "(string \<times> json) list" where
  "template_items =
     [(''goal_state'', JObj template_goal),
      (''world_state'',
         JObj [(''location'', JStr ''unknown''), (''inventory'', JArr []),
               (''entity_map'', JObj []), (''discovered_objects'', JArr [])]),
      (''constraint_state'', JObj template_constraints)]"

section \<open>The payload of a response\<close>

text \<open>The text before the first occurrence of \<open>sep\<close>, the whole text when there is none.\<close>

fun before :: "string \<Rightarrow> string \<Rightarrow> string" where
  "before sep [] = []"
| "before sep (c # cs) = (if startswith (c # cs) sep then [] else c # before sep cs)"

text \<open>
  The payload as the claim describes it, with the commas in question taken out: every
  comma whose next character after optional whitespace is a closing brace or bracket.
\<close>

fun without_trailing_commas :: "string \<Rightarrow> string" where
  "without_trailing_commas [] = []"
| "without_trailing_commas (c # cs) =
     (if c = CHR '','' \<and>
         (case dropWhile py_isspace cs of [] \<Rightarrow> False | b # _ \<Rightarrow> b = CHR ''}'' \<or> b = CHR '']'')
      then without_trailing_commas cs
      else c # without_trailing_commas cs)"

text \<open>
  \<open>payload_of text p\<close>: \<open>p\<close> is the payload of \<open>text\<close>.  Either the text has no
  marker and \<open>p\<close> is the whole text; or \<open>p\<close> lies between the first \<open>```json\<close> marker
  and the next \<open>```\<close> marker, which is not run into a further \<open>```json\<close> marker by
  backticks that follow it; or the text has no \<open>```json\<close> marker and \<open>p\<close> lies
  between the first two \<open>```\<close> markers.
\<close>

definition payload_of :: "string \<Rightarrow> string \<Rightarrow> bool" where
  "payload_of text p =
     ((\<not> contains text ''```'' \<and> p = text)
      \<or> (\<exists>pre post. text = pre @ ''```json'' @ p @ ''```'' @ post
            \<and> \<not> contains (pre @ ''```jso'') ''```json''
            \<and> \<not> contains (p @ ''``'') ''```''
            \<and> \<not> startswith post ''`json'' \<and> \<not> startswith post ''``json'')
      \<or> (\<exists>pre post. text = pre @ ''```'' @ p @ ''```'' @ post
            \<and> \<not> contains text ''```json''
            \<and> \<not> contains (pre @ ''``'') ''```''
            \<and> \<not> contains (p @ ''``'') ''```''))"

text \<open>
  What holds of the masking agent \<open>ag\<close> after \<open>reset\<close> of the agent \<open>a\<close> with the
  instruction \<open>instr\<close> and one step for each observation of \<open>obss\<close>.
\<close>

definition om_reached :: "om_core agent \<Rightarrow> string \<Rightarrow> string list \<Rightarrow> om_core agent \<Rightarrow> bool" where
  "om_reached a instr obss ag =
     (observations (core ag) = obss \<and> length (thoughts (core ag)) = length obss
      \<and> length (actions (core ag)) = length obss
      \<and> keep_recent (core ag) = keep_recent (core a)
      \<and> environment (core ag) = environment (core a)
      \<and> instruction (core ag) = instr
      \<and> current_step ag = length obss \<and> max_steps ag = max_steps a)"

text \<open>
  The history the claim describes for step \<open>length obss + 1\<close>: for each step its
  observation line, where all but the last \<open>min t keep\<close> observations are masked, and
  for each earlier step its stored thought and action.
\<close>

definition masked_history :: "int \<Rightarrow> string list \<Rightarrow> string \<Rightarrow> string list \<Rightarrow> string list \<Rightarrow> string list" where
  "masked_history keep obss obs ths acts =
     concat (map
       (\<lambda>i. [''Observation '' @ str_nat (i + 1) @ '': ''
                @ (replicate (Suc (length obss) - nat (min (int (Suc (length obss))) keep)) masked
                   @ drop (Suc (length obss) - nat (min (int (Suc (length obss))) keep))
                       (obss @ [obs])) ! i]
             @ (if i < length obss
                then [''Thought '' @ str_nat (i + 1) @ '': '' @ ths ! i,
                      ''Action '' @ str_nat (i + 1) @ '': '' @ acts ! i]
                else []))
       [0..<Suc (length obss)])"

text \<open>
  A masking agent that keeps one observation, and a model whose thought repeats the
  history it was asked with, its lines separated by bars.
\<close>

definition echo_respond :: "string \<Rightarrow> string \<Rightarrow> string" where
  "echo_respond instr history =
     ''Thought: '' @ map (\<lambda>c. if c = CHR 0x0A then CHR ''|'' else c) history
       @ [CHR 0x0A] @ ''Action: look''"

definition demo_om :: "om_core agent" where
  "demo_om = \<lparr>current_step = 7, max_steps = 50, last_thought = ''old'',
              core = \<lparr>environment = ''alfworld'', keep_recent = 1, observations = [''x''],
                      thoughts = [], actions = [], instruction = ''''\<rparr>\<rparr>"

definition demo_om_after :: "nat \<Rightarrow> string list \<Rightarrow> string list \<Rightarrow> string list \<Rightarrow> string \<Rightarrow> om_core agent" where
  "demo_om_after n os ts as lt = \<lparr>current_step = n, max_steps = 50, last_thought = lt,
              core = \<lparr>environment = ''alfworld'', keep_recent = 1, observations = os,
                      thoughts = ts, actions = as, instruction = ''put mug''\<rparr>\<rparr>"

section \<open>The state-compression agent's step\<close>








section \<open>The state kept by the state update\<close>

text \<open>
  The states on which the tracking block works: an object whose \<open>constraint_state\<close>,
  when it has one, is an object whose \<open>attempted_actions\<close>, when it has one, is a list.
\<close>

fun well_shaped :: "json \<Rightarrow> bool" where
  "well_shaped (JObj kvs) =
     (case map_of kvs ''constraint_state'' of
        None \<Rightarrow> True
      | Some (JObj ckvs) \<Rightarrow>
          (case map_of ckvs ''attempted_actions'' of
             None \<Rightarrow> True
           | Some (JArr acts) \<Rightarrow> True
           | Some _ \<Rightarrow> False)
      | Some _ \<Rightarrow> False)"
| "well_shaped _ = False"

text \<open>The constraints a state without \<open>constraint_state\<close> is given.\<close>

definition created_constraints :: "(string \<times> json) list" where
  "created_constraints =
     [(''attempted_actions'', JArr []), (''negative_constraints'', JArr []),
      (''visited_locations'', JArr [])]"

text \<open>
  The constraints of a state, the created ones when it has none, and its list of
  attempted actions, empty when it has none.
\<close>

definition constraints_of :: "json \<Rightarrow> (string \<times> json) list" where
  "constraints_of st =
     (case st of
        JObj kvs \<Rightarrow>
          (case map_of kvs ''constraint_state'' of
             Some (JObj ckvs) \<Rightarrow> ckvs
           | _ \<Rightarrow> created_constraints)
      | _ \<Rightarrow> created_constraints)"

definition attempted_of :: "json \<Rightarrow> json list" where
  "attempted_of st =
     (case map_of (constraints_of st) ''attempted_actions'' of
        Some (JArr acts) \<Rightarrow> acts
      | _ \<Rightarrow> [])"

text \<open>The last action is there and not empty.\<close>

definition has_action :: "string option \<Rightarrow> bool" where
  "has_action la = (case la of None \<Rightarrow> False | Some a \<Rightarrow> a \<noteq> [])"

text \<open>The state with the tracked list stored in its constraints.\<close>

definition store_tracked :: "json \<Rightarrow> string option \<Rightarrow> json" where
  "store_tracked st la =
     (case st of
        JObj kvs \<Rightarrow> with_attempted kvs (constraints_of st) (tracked_list (attempted_of st) la)
      | _ \<Rightarrow> st)"

text \<open>
  The state the tracking block leaves: the tracked list is stored when there is a last
  action.
\<close>

definition after_tracking :: "json \<Rightarrow> string option \<Rightarrow> json" where
  "after_tracking st la = (if has_action la then store_tracked st la else st)"

text \<open>
  The state a response that does not parse leaves: a well-shaped state has the tracked
  list stored when there is a last action or the state has constraints, and every other
  state stays as it is.
\<close>

definition has_constraints :: "json \<Rightarrow> bool" where
  "has_constraints st =
     (case st of JObj kvs \<Rightarrow> map_of kvs ''constraint_state'' \<noteq> None | _ \<Rightarrow> False)"

definition kept_state :: "json \<Rightarrow> string option \<Rightarrow> json" where
  "kept_state st la =
     (if well_shaped st \<and> (has_action la \<or> has_constraints st)
      then store_tracked st la else st)"

section \<open>Properties of the thought/action extraction\<close>

lemma py_strip_Nil: "py_strip [] = []"
  by (simp add: py_strip_def)

lemma scan_lines_empty: "scan_lines [] = ('''', ''look'')"
  by (simp add: scan_lines_def py_strip_Nil scan_line_def startswith_def)

lemma fallback_look: "snd ta \<noteq> [] \<Longrightarrow> fallback search text ta = ta"
  by (simp add: fallback_def)

lemma foldl_scan_line_unprefixed:
  assumes "\<forall>l \<in> set ls. \<not> startswith (py_strip l) ''Thought:'' \<and> \<not> startswith (py_strip l) ''Action:''"
  shows "foldl scan_line ta ls = ta"
  using assms by (induction ls arbitrary: ta) (simp_all add: scan_line_def)

lemma parse_unprefixed:
  assumes "\<forall>l \<in> set (split_char (CHR 0x0A) (py_strip text)).
             \<not> startswith (py_strip l) ''Thought:'' \<and> \<not> startswith (py_strip l) ''Action:''"
  shows "parse_thought_action text = ('''', ''look'')"
    and "om_parse_thought_action env_name text = ('''', ''look'')"
  using foldl_scan_line_unprefixed [OF assms, of "('''', ''look'')"]
  by (simp_all add: parse_thought_action_def om_parse_thought_action_def scan_lines_def fallback_def)

text \<open>
  C2.  The claim: a response with no \<open>Thought:\<close> line and no \<open>Action:\<close> line is
  taken whole as the thought and searched for a command.  On the response
  \<open>go to desk 1\<close> that would give the thought \<open>go to desk 1\<close> and the action
  \<open>go to desk 1\<close>.  The code returns the empty thought and \<open>look\<close>: the action starts
  as \<open>look\<close>, which is not empty, so the test \<open>not thought and not action\<close> fails and
  the fallback is skipped.
\<close>

theorem parse_thought_action_skips_fallback:
  "parse_thought_action ''go to desk 1'' = ('''', ''look'')
   \<and> om_parse_thought_action ''sciworld'' ''go to desk 1'' = ('''', ''look'')
   \<and> spec_fallback_result ''go to desk 1'' = (''go to desk 1'', ''go to desk 1'')"
  by code_simp

text \<open>
  C4.  When the API call raises, \<open>chat\<close> returns the empty string whatever the
  exception, the client and the messages are; and every thought/action parser maps the
  empty string to the empty thought and the action \<open>look\<close>.
\<close>

theorem chat_error_gives_look:
  "fst (chat enc c messages (ApiRaises e)) = ''''
   \<and> parse_thought_action (fst (chat enc c messages (ApiRaises e))) = ('''', ''look'')
   \<and> om_parse_thought_action env_name (fst (chat enc c messages (ApiRaises e))) = ('''', ''look'')"
  by (simp add: chat_def Let_def parse_thought_action_def om_parse_thought_action_def
      scan_lines_empty fallback_def)

section \<open>Properties of the logger and the main loop\<close>

lemma sum_ones_length: "sum_list (map (\<lambda>x. Suc 0) xs) = length xs"
  by (induction xs) simp_all

text \<open>
  C8.  For a logger with at least one episode, \<open>save_summary\<close> writes a summary whose
  success rate is the number of successful episodes divided by the number of episodes,
  whose average of steps is the sum of the episodes' step counts divided by the number of
  episodes, whose token totals are the sums of the episodes' input and output counts, and
  whose average of tokens is the sum of both totals divided by the number of episodes.
  Each division is Python's \<open>/\<close> on those integers, whatever float it yields.
\<close>

theorem save_summary_aggregates:
  assumes "episodes lg \<noteq> []"
  shows "\<exists>s. save_summary F lg = Some s
     \<and> sm_success_rate s
         = FloatNum (true_div F (length (filter ep_success (episodes lg))) (length (episodes lg)))
     \<and> sm_avg_steps s
         = true_div F (sum_list (map ep_num_steps (episodes lg))) (length (episodes lg))
     \<and> sm_total_input_tokens s
         = sum_list (map (\<lambda>ep. get_or_zero (ep_token_usage ep) ''input_tokens'') (episodes lg))
     \<and> sm_total_output_tokens s
         = sum_list (map (\<lambda>ep. get_or_zero (ep_token_usage ep) ''output_tokens'') (episodes lg))
     \<and> sm_avg_tokens_per_episode s
         = FloatNum (true_div F (sm_total_input_tokens s + sm_total_output_tokens s)
                       (length (episodes lg)))"
  using assms by (simp add: save_summary_def Let_def sum_ones_length)

lemma demo_logger_episodes:
  "map (\<lambda>ep. (ep_success ep, ep_num_steps ep, ep_token_usage ep)) (episodes demo_logger) =
     [(True, 2, [(''input_tokens'', 30), (''output_tokens'', 10), (''total_tokens'', 40)]),
      (False, 1, [(''input_tokens'', 50), (''output_tokens'', 20), (''total_tokens'', 70)])]"
  by (simp add: demo_logger_def new_logger_def start_episode_def log_step_def end_episode_def)

text \<open>
  Two episodes logged through the logger's own operations: the success rate is the
  float of \<open>1 / 2\<close>, the average of steps that of \<open>3 / 2\<close>, the average of tokens
  that of \<open>110 / 2\<close>.
\<close>

theorem save_summary_aggregates_witness:
  "episodes demo_logger \<noteq> []
   \<and> (\<exists>s. save_summary quotient_ops demo_logger = Some s
        \<and> sm_success_rate s = FloatNum (1, 2) \<and> sm_avg_steps s = (3, 2)
        \<and> sm_total_input_tokens s = 80 \<and> sm_total_output_tokens s = 30
        \<and> sm_avg_tokens_per_episode s = FloatNum (110, 2))"
proof -
  have ne: "episodes demo_logger \<noteq> []"
    using demo_logger_episodes by auto
  from save_summary_aggregates [OF ne, of quotient_ops] obtain s
    where s: "save_summary quotient_ops demo_logger = Some s"
    and r: "sm_success_rate s
         = FloatNum (true_div quotient_ops (length (filter ep_success (episodes demo_logger)))
                       (length (episodes demo_logger)))"
    and a: "sm_avg_steps s
         = true_div quotient_ops (sum_list (map ep_num_steps (episodes demo_logger)))
             (length (episodes demo_logger))"
    and i: "sm_total_input_tokens s
         = sum_list (map (\<lambda>ep. get_or_zero (ep_token_usage ep) ''input_tokens'') (episodes demo_logger))"
    and out: "sm_total_output_tokens s
         = sum_list (map (\<lambda>ep. get_or_zero (ep_token_usage ep) ''output_tokens'') (episodes demo_logger))"
    and avg: "sm_avg_tokens_per_episode s
         = FloatNum (true_div quotient_ops (sm_total_input_tokens s + sm_total_output_tokens s)
                       (length (episodes demo_logger)))"
    by blast
  have eps: "episodes demo_logger = 
     [\<lparr>ep_id = Some 1, ep_task = ''t1'',
       ep_steps = [\<lparr>sd_step = 1, sd_observation = ''o'', sd_thought = ''th'', sd_action = ''look'', sd_state = None\<rparr>,
                   \<lparr>sd_step = 2, sd_observation = ''o2'', sd_thought = ''th2'', sd_action = ''take mug 1'', sd_state = None\<rparr>],
       ep_success = True, ep_reward = 1, ep_num_steps = 2,
       ep_token_usage = [(''input_tokens'', 30), (''output_tokens'', 10), (''total_tokens'', 40)]\<rparr>,
      \<lparr>ep_id = Some 2, ep_task = ''t2'',
       ep_steps = [\<lparr>sd_step = 1, sd_observation = ''o'', sd_thought = ''th'', sd_action = ''look'', sd_state = None\<rparr>],
       ep_success = False, ep_reward = 0, ep_num_steps = 1,
       ep_token_usage = [(''input_tokens'', 50), (''output_tokens'', 20), (''total_tokens'', 70)]\<rparr>]"
    by (simp add: demo_logger_def new_logger_def start_episode_def log_step_def end_episode_def)
  show ?thesis
    using ne s r a i out avg by (simp add: eps get_or_zero_def quotient_ops_def)
qed

lemma reset_token_count_new: "reset_token_count c = new_client"
  by (simp add: reset_token_count_def new_client_def)

lemma log_step_episodes: "episodes (log_step lg n obs th act st) = episodes lg"
  by (simp add: log_step_def split: option.splits)

lemma log_step_current:
  "current_episode lg \<noteq> None \<Longrightarrow> current_episode (log_step lg n obs th act st) \<noteq> None"
  by (auto simp: log_step_def split: option.splits)

lemma log_all_keeps:
  "episodes (log_all lg sds) = episodes lg
   \<and> (current_episode lg \<noteq> None \<longrightarrow> current_episode (log_all lg sds) \<noteq> None)"
  unfolding log_all_def
proof (induction sds arbitrary: lg)
  case Nil
  then show ?case by simp
next
  case (Cons sd sds)
  show ?case
    using Cons.IH [of "log_step lg (sd_step sd) (sd_observation sd) (sd_thought sd) (sd_action sd) (sd_state sd)"]
      log_step_current [of lg]
    by (simp add: log_step_episodes)
qed

lemma end_episode_usage:
  "current_episode lg \<noteq> None \<Longrightarrow>
   map ep_token_usage (episodes (end_episode lg succ rew usage)) = map ep_token_usage (episodes lg) @ [usage]"
  by (auto simp: end_episode_def split: option.splits)

lemma main_iteration_logger:
  "map ep_token_usage
     (episodes (end_episode (log_all (start_episode lg task eid) sds) succ rew usage))
   = map ep_token_usage (episodes lg) @ [usage]"
proof -
  have "current_episode (start_episode lg task eid) \<noteq> None"
    by (simp add: start_episode_def)
  then have "current_episode (log_all (start_episode lg task eid) sds) \<noteq> None"
    using log_all_keeps by blast
  moreover have "episodes (log_all (start_episode lg task eid) sds) = episodes lg"
    using log_all_keeps [of "start_episode lg task eid" sds] by (simp add: start_episode_def)
  ultimately show ?thesis
    by (simp add: end_episode_usage)
qed

lemma main_loop_usage:
  "main_loop enc i llm lg acts = Inr (llm', lg') \<Longrightarrow>
   (acts \<noteq> [] \<longrightarrow> llm' = new_client)
   \<and> (acts = [] \<longrightarrow> llm' = llm)
   \<and> map ep_token_usage (episodes lg')
       = map ep_token_usage (episodes lg)
         @ (case acts of
              [] \<Rightarrow> []
            | a # rest \<Rightarrow>
                get_token_usage (chat_all enc llm (act_calls a))
                # map (\<lambda>a. get_token_usage (chat_all enc new_client (act_calls a))) rest)"
proof (induction acts arbitrary: i llm lg)
  case Nil
  then show ?case by simp
next
  case (Cons a acts)
  from Cons.prems obtain succ rew steps where res: "act_result a = Inr (succ, rew, steps)"
    by (cases "act_result a") (auto simp: Let_def)
  let ?lg1 = "end_episode (log_all (start_episode lg (act_task a) (Some (i + 1))) (act_logged a))
                succ rew (get_token_usage (chat_all enc llm (act_calls a)))"
  from Cons.prems res have rec: "main_loop enc (i + 1) new_client ?lg1 acts = Inr (llm', lg')"
    by (simp add: Let_def reset_token_count_new)
  note ih = Cons.IH [OF rec]
  have lg1: "map ep_token_usage (episodes ?lg1)
       = map ep_token_usage (episodes lg) @ [get_token_usage (chat_all enc llm (act_calls a))]"
    by (rule main_iteration_logger)
  show ?case
    using ih lg1 by (cases acts) auto
qed

text \<open>
  C7.  \<open>reset_token_count\<close> sets the three counters to zero.  The client is created
  with zero counters, and after any number of completed episodes, which is the start of
  the next one, the counters are zero again; the usage logged for an episode is the usage
  a client with zero counters shows after that episode's calls alone.
\<close>

theorem main_loop_counters_reset:
  assumes "main_loop enc 0 new_client lg acts = Inr (llm', lg')"
  shows "total_input_tokens (reset_token_count c) = 0
     \<and> total_output_tokens (reset_token_count c) = 0
     \<and> call_count (reset_token_count c) = 0
     \<and> total_input_tokens llm' = 0 \<and> total_output_tokens llm' = 0 \<and> call_count llm' = 0
     \<and> map ep_token_usage (episodes lg')
         = map ep_token_usage (episodes lg)
           @ map (\<lambda>a. get_token_usage (chat_all enc new_client (act_calls a))) acts"
proof -
  from main_loop_usage [OF assms] have "llm' = new_client"
    by (cases acts) auto
  moreover from main_loop_usage [OF assms] have "map ep_token_usage (episodes lg')
         = map ep_token_usage (episodes lg)
           @ map (\<lambda>a. get_token_usage (chat_all enc new_client (act_calls a))) acts"
    by (cases acts) auto
  ultimately show ?thesis
    by (simp add: reset_token_count_def new_client_def)
qed

lemma demo_main_loop:
  "\<exists>lg'. main_loop (\<lambda>s. length s) 0 new_client (new_logger :: unit logger) demo_acts = Inr (new_client, lg')"
  by (simp add: demo_acts_def Let_def reset_token_count_new)

text \<open>Two episodes, the first with a failing call: 40 and 70 tokens are logged.\<close>

theorem main_loop_counters_reset_witness:
  "\<exists>lg'. main_loop (\<lambda>s. length s) 0 new_client (new_logger :: unit logger) demo_acts = Inr (new_client, lg')
     \<and> total_input_tokens new_client = 0 \<and> total_output_tokens new_client = 0 \<and> call_count new_client = 0
     \<and> map ep_token_usage (episodes lg')
        = [[(''input_tokens'', 30), (''output_tokens'', 10), (''total_tokens'', 40)],
           [(''input_tokens'', 50), (''output_tokens'', 20), (''total_tokens'', 70)]]"
proof -
  from demo_main_loop obtain lg' where
    run: "main_loop (\<lambda>s. length s) 0 new_client (new_logger :: unit logger) demo_acts = Inr (new_client, lg')"
    by blast
  note th = main_loop_counters_reset [OF run, of new_client]
  have u: "map (\<lambda>a. get_token_usage (chat_all (\<lambda>s. length s) new_client (act_calls a))) demo_acts
        = [[(''input_tokens'', 30), (''output_tokens'', 10), (''total_tokens'', 40)],
           [(''input_tokens'', 50), (''output_tokens'', 20), (''total_tokens'', 70)]]"
    by (simp add: demo_acts_def chat_all_def chat_def add_usage_def get_token_usage_def
        new_client_def Let_def)
  have e: "episodes (new_logger :: unit logger) = []"
    by (simp add: new_logger_def)
  from th have z: "total_input_tokens new_client = 0 \<and> total_output_tokens new_client = 0
      \<and> call_count new_client = 0"
    by blast
  from th have "map ep_token_usage (episodes lg')
         = map ep_token_usage (episodes (new_logger :: unit logger))
           @ map (\<lambda>a. get_token_usage (chat_all (\<lambda>s. length s) new_client (act_calls a))) demo_acts"
    by blast
  then have m: "map ep_token_usage (episodes lg')
        = [[(''input_tokens'', 30), (''output_tokens'', 10), (''total_tokens'', 40)],
           [(''input_tokens'', 50), (''output_tokens'', 20), (''total_tokens'', 70)]]"
    unfolding u e by simp
  show ?thesis
    by (rule exI [of _ lg']) (intro conjI run m z [THEN conjunct1] z [THEN conjunct2, THEN conjunct1]
        z [THEN conjunct2, THEN conjunct2])
qed

section \<open>Properties of the state update\<close>

lemma map_of_dict_set: "map_of (dict_set kvs k v) = (map_of kvs)(k \<mapsto> v)"
  by (induction kvs) (auto simp: fun_eq_iff)

lemma dict_set_same: "map_of kvs k = Some v \<Longrightarrow> dict_set kvs k v = kvs"
  by (induction kvs) (auto split: if_splits)

lemma dict_set_twice: "dict_set (dict_set kvs k v) k w = dict_set kvs k w"
  by (induction kvs) auto

lemma key_in_dict: "k \<in> fst ` set kvs \<longleftrightarrow> map_of kvs k \<noteq> None"
  by (simp add: map_of_eq_None_iff)

lemma key_in_dict_set: "k \<in> fst ` set (dict_set kvs k v)"
  using key_in_dict [of k "dict_set kvs k v"] by (simp add: map_of_dict_set)

lemma then_do_Inr: "then_do (Inr x) f = f x"
  by (simp add: then_do_def)

lemma then_do_Inl: "then_do (Inl e) f = Inl e"
  by (simp add: then_do_def)

lemma track_action_shape:
  assumes "map_of kvs ''constraint_state'' = Some (JObj ckvs)"
    and "map_of ckvs ''attempted_actions'' = Some (JArr acts)"
  shows "track_action (JObj kvs) a
         = Inr (with_attempted kvs ckvs (if JStr a \<in> set acts then acts else acts @ [JStr a]))"
  using assms
  by (simp add: track_action_def then_do_def with_attempted_def key_in_dict)

lemma parse_json_fails: "json_parse_fails loads text \<Longrightarrow> parse_json loads text (Some d) = d"
  by (auto simp: json_parse_fails_def parse_json_def split: option.splits)

lemma get_empty_state_items: "get_empty_state = JObj template_items"
  by (simp add: get_empty_state_def template_items_def template_constraints_def template_goal_def)

lemma template_has_constraints:
  "map_of template_items ''constraint_state'' = Some (JObj template_constraints)"
  by (simp add: template_items_def)

lemma template_has_attempted:
  "map_of template_constraints ''attempted_actions'' = Some (JArr [])"
  by (simp add: template_constraints_def)

lemma refusal_fails: "json_parse_fails json_loads ''I cannot comply.''"
  by code_simp

lemma track_action_well_shaped:
  assumes "well_shaped st" and "a \<noteq> []"
  shows "track_action st a = Inr (store_tracked st (Some a))"
proof -
  from assms(1) obtain kvs where st: "st = JObj kvs" by (cases st) auto
  show ?thesis
  proof (cases "map_of kvs ''constraint_state''")
    case None
    then show ?thesis
      using assms(2)
      by (simp add: st track_action_def then_do_def store_tracked_def with_attempted_def
          constraints_of_def attempted_of_def created_constraints_def tracked_list_def
          key_in_dict map_of_dict_set dict_set_twice)
  next
    case (Some c)
    with assms(1) st obtain ckvs where c: "c = JObj ckvs" by (cases c) auto
    show ?thesis
    proof (cases "map_of ckvs ''attempted_actions''")
      case None
      then show ?thesis
        using assms(2) Some c
        by (simp add: st track_action_def then_do_def store_tracked_def with_attempted_def
            constraints_of_def attempted_of_def tracked_list_def
            key_in_dict map_of_dict_set dict_set_twice)
    next
      case aa: (Some v)
      with assms(1) st Some c obtain acts where v: "v = JArr acts" by (cases v) auto
      have cs: "map_of kvs ''constraint_state'' = Some (JObj ckvs)" using Some c by simp
      have al: "map_of ckvs ''attempted_actions'' = Some (JArr acts)" using aa v by simp
      show ?thesis
        using track_action_shape [OF cs al, of a] assms(2)
        by (simp add: st store_tracked_def constraints_of_def attempted_of_def tracked_list_def cs al)
    qed
  qed
qed

lemma tracking_well_shaped:
  assumes "well_shaped st"
  shows "(case la of None \<Rightarrow> Inr st
          | Some a \<Rightarrow> if a = [] then Inr st else track_action st a)
         = Inr (after_tracking st la)"
  using track_action_well_shaped [OF assms]
  by (auto simp: after_tracking_def has_action_def split: option.splits)

lemma after_tracking_shape:
  assumes "well_shaped st"
  shows "well_shaped (after_tracking st la)
       \<and> attempted_of (after_tracking st la) = tracked_list (attempted_of st) la"
proof -
  from assms obtain kvs where st: "st = JObj kvs" by (cases st) auto
  have idle: "\<not> has_action la \<Longrightarrow> tracked_list l la = l" for l
    by (auto simp: has_action_def tracked_list_def split: option.splits)
  show ?thesis
  proof (cases "has_action la")
    case True
    then show ?thesis
      by (simp add: after_tracking_def store_tracked_def st with_attempted_def map_of_dict_set
          constraints_of_def attempted_of_def)
  next
    case False
    with assms idle show ?thesis
      by (simp add: after_tracking_def)
  qed
qed

lemma override_well_shaped:
  assumes "well_shaped old" and "map_of nkvs ''constraint_state'' = Some (JObj nckvs)"
  shows "then_do (py_in ''constraint_state'' (JObj nkvs)) (\<lambda>has_cs.
           if has_cs
           then then_do (py_get old ''constraint_state'' (JObj [])) (\<lambda>old_cs.
                then_do (py_get old_cs ''attempted_actions'' (JArr [])) (\<lambda>aa.
                then_do (py_getitem (JObj nkvs) ''constraint_state'') (\<lambda>new_cs.
                then_do (py_setitem new_cs ''attempted_actions'' aa) (\<lambda>new_cs1.
                  py_setitem (JObj nkvs) ''constraint_state'' new_cs1))))
           else Inr (JObj nkvs))
         = Inr (with_attempted nkvs nckvs (attempted_of old))"
proof -
  from assms(1) obtain kvs where old: "old = JObj kvs" by (cases old) auto
  have k: "''constraint_state'' \<in> fst ` set nkvs"
    using assms(2) by (simp add: key_in_dict)
  show ?thesis
  proof (cases "map_of kvs ''constraint_state''")
    case None
    then show ?thesis
      using assms(2) k
      by (simp add: old then_do_def with_attempted_def attempted_of_def constraints_of_def
          created_constraints_def)
  next
    case (Some c)
    with assms(1) old obtain ckvs where c: "c = JObj ckvs" by (cases c) auto
    show ?thesis
    proof (cases "map_of ckvs ''attempted_actions''")
      case None
      then show ?thesis
        using assms(2) k Some c
        by (simp add: old then_do_def with_attempted_def attempted_of_def constraints_of_def)
    next
      case aa: (Some v)
      with assms(1) old Some c obtain acts where v: "v = JArr acts" by (cases v) auto
      show ?thesis
        using assms(2) k Some c aa v
        by (simp add: old then_do_def with_attempted_def attempted_of_def constraints_of_def)
    qed
  qed
qed

lemma update_state_unfolded:
  assumes "well_shaped st"
  shows "update_state loads st la response =
      (if truthy (parse_json loads response (Some (after_tracking st la)))
       then then_do (py_in ''constraint_state'' (parse_json loads response (Some (after_tracking st la))))
            (\<lambda>has_cs.
              if has_cs
              then then_do (py_get (after_tracking st la) ''constraint_state'' (JObj [])) (\<lambda>old_cs.
                   then_do (py_get old_cs ''attempted_actions'' (JArr [])) (\<lambda>aa.
                   then_do (py_getitem (parse_json loads response (Some (after_tracking st la)))
                              ''constraint_state'') (\<lambda>new_cs.
                   then_do (py_setitem new_cs ''attempted_actions'' aa) (\<lambda>new_cs1.
                     py_setitem (parse_json loads response (Some (after_tracking st la)))
                       ''constraint_state'' new_cs1))))
              else Inr (parse_json loads response (Some (after_tracking st la))))
       else Inr (after_tracking st la))"
  unfolding update_state_def tracking_well_shaped [OF assms]
  by (simp only: then_do_Inr Let_def)

lemma update_state_overrides:
  assumes "well_shaped st"
    and "parse_json loads response (Some (after_tracking st la)) = JObj nkvs"
    and "map_of nkvs ''constraint_state'' = Some (JObj nckvs)"
  shows "update_state loads st la response
         = Inr (with_attempted nkvs nckvs (tracked_list (attempted_of st) la))"
proof -
  from assms(3) have "nkvs \<noteq> []" by auto
  then have tr: "truthy (JObj nkvs)" by simp
  from after_tracking_shape [OF assms(1), of la]
  have ws: "well_shaped (after_tracking st la)"
    and at: "attempted_of (after_tracking st la) = tracked_list (attempted_of st) la"
    by simp_all
  show ?thesis
    unfolding update_state_unfolded [OF assms(1)] assms(2)
    using tr override_well_shaped [OF ws assms(3)] at
    by simp
qed

lemma store_tracked_twice:
  assumes "st = JObj kvs"
  shows "\<exists>kvs1 ckvs1. store_tracked st la = JObj kvs1
       \<and> map_of kvs1 ''constraint_state'' = Some (JObj ckvs1)
       \<and> with_attempted kvs1 ckvs1 (tracked_list (attempted_of st) la) = store_tracked st la"
  by (simp add: assms store_tracked_def with_attempted_def map_of_dict_set dict_set_twice)

lemma update_state_fails_well_shaped:
  assumes "well_shaped st" and "json_parse_fails loads response"
  shows "update_state loads st la response = Inr (kept_state st la)"
proof -
  from assms(1) obtain kvs where st: "st = JObj kvs" by (cases st) auto
  have ns: "parse_json loads response (Some (after_tracking st la)) = after_tracking st la"
    using parse_json_fails [OF assms(2)] .
  show ?thesis
  proof (cases "has_action la")
    case True
    from store_tracked_twice [OF st, of la] obtain kvs1 ckvs1 where
      s1: "store_tracked st la = JObj kvs1"
      and c1: "map_of kvs1 ''constraint_state'' = Some (JObj ckvs1)"
      and w1: "with_attempted kvs1 ckvs1 (tracked_list (attempted_of st) la) = store_tracked st la"
      by blast
    have ns1: "parse_json loads response (Some (after_tracking st la)) = JObj kvs1"
      using ns s1 True by (simp add: after_tracking_def)
    from update_state_overrides [OF assms(1) ns1 c1] w1 True assms(1) show ?thesis
      by (simp add: kept_state_def)
  next
    case False
    then have at: "after_tracking st la = JObj kvs"
      by (simp add: after_tracking_def st)
    show ?thesis
    proof (cases "map_of kvs ''constraint_state''")
      case None
      then have "''constraint_state'' \<notin> fst ` set kvs"
        by (simp add: key_in_dict)
      moreover have "parse_json loads response (Some (JObj kvs)) = JObj kvs"
        using ns at by simp
      ultimately show ?thesis
        unfolding update_state_unfolded [OF assms(1)] at
        using None False by (simp add: then_do_Inr kept_state_def has_constraints_def st)
    next
      case (Some c)
      with assms(1) st obtain ckvs where c: "c = JObj ckvs" by (cases c) auto
      have cs: "map_of kvs ''constraint_state'' = Some (JObj ckvs)" using Some c by simp
      have ns1: "parse_json loads response (Some (after_tracking st la)) = JObj kvs"
        using ns at by simp
      from update_state_overrides [OF assms(1) ns1 cs] assms(1) cs show ?thesis
        by (simp add: kept_state_def has_constraints_def st store_tracked_def constraints_of_def)
    qed
  qed
qed

lemma track_action_ill_shaped:
  assumes "\<not> well_shaped st" and "track_action st a = Inr st1"
  shows "st1 = st"
proof (cases st)
  case (JObj kvs)
  show ?thesis
  proof (cases "map_of kvs ''constraint_state''")
    case None
    with assms(1) JObj show ?thesis by simp
  next
    case (Some c)
    then have k: "''constraint_state'' \<in> fst ` set kvs"
      by (simp add: key_in_dict)
    show ?thesis
    proof (cases c)
      case c: (JObj ckvs)
      show ?thesis
      proof (cases "map_of ckvs ''attempted_actions''")
        case None
        with assms(1) JObj Some c show ?thesis by simp
      next
        case aa: (Some v)
        then have k2: "''attempted_actions'' \<in> fst ` set ckvs"
          by (simp add: key_in_dict)
        have same: "dict_set kvs ''constraint_state'' (JObj (dict_set ckvs ''attempted_actions'' v)) = kvs"
          using Some c aa by (simp add: dict_set_same)
        from assms JObj Some c aa k k2 same show ?thesis
          by (cases v) (auto simp: track_action_def then_do_def split: if_splits)
      qed
    qed (use assms JObj Some k in \<open>auto simp: track_action_def then_do_def split: if_splits\<close>)
  qed
qed (use assms in \<open>auto simp: track_action_def then_do_def split: if_splits\<close>)

lemma override_self_ill_shaped:
  assumes "\<not> well_shaped st"
    and "(if truthy st
          then then_do (py_in ''constraint_state'' st) (\<lambda>has_cs.
                 if has_cs
                 then then_do (py_get st ''constraint_state'' (JObj [])) (\<lambda>old_cs.
                      then_do (py_get old_cs ''attempted_actions'' (JArr [])) (\<lambda>aa.
                      then_do (py_getitem st ''constraint_state'') (\<lambda>new_cs.
                      then_do (py_setitem new_cs ''attempted_actions'' aa) (\<lambda>new_cs1.
                        py_setitem st ''constraint_state'' new_cs1))))
                 else Inr st)
          else Inr st) = Inr st1"
  shows "st1 = st"
proof (cases st)
  case (JObj kvs)
  show ?thesis
  proof (cases "map_of kvs ''constraint_state''")
    case None
    with assms(1) JObj show ?thesis by simp
  next
    case (Some c)
    then have k: "''constraint_state'' \<in> fst ` set kvs"
      by (simp add: key_in_dict)
    show ?thesis
    proof (cases c)
      case c: (JObj ckvs)
      show ?thesis
      proof (cases "map_of ckvs ''attempted_actions''")
        case None
        with assms(1) JObj Some c show ?thesis by simp
      next
        case aa: (Some v)
        have same: "dict_set kvs ''constraint_state'' (JObj (dict_set ckvs ''attempted_actions'' v)) = kvs"
          using Some c aa by (simp add: dict_set_same)
        from assms(2) JObj Some c aa k same show ?thesis
          by (auto simp: then_do_def split: if_splits)
      qed
    qed (use assms JObj Some k in \<open>auto simp: then_do_def split: if_splits\<close>)
  qed
qed (use assms in \<open>auto simp: then_do_def split: if_splits\<close>)

lemma update_state_fails_ill_shaped:
  assumes "\<not> well_shaped st" and "json_parse_fails loads response"
    and "update_state loads st la response = Inr st'"
  shows "st' = st"
proof -
  let ?t = "case la of None \<Rightarrow> Inr st | Some a \<Rightarrow> if a = [] then Inr st else track_action st a"
  from assms(3) obtain st1 where t: "?t = Inr st1"
    by (cases ?t) (simp_all add: update_state_def then_do_def)
  have st1: "st1 = st"
    using t track_action_ill_shaped [OF assms(1)]
    by (auto split: option.splits if_splits)
  have ns: "parse_json loads response (Some st) = st"
    using parse_json_fails [OF assms(2)] .
  from assms(3) show ?thesis
    unfolding update_state_def t st1 then_do_Inr Let_def ns
    by (rule override_self_ill_shaped [OF assms(1)])
qed

lemma dict_set_new: "map_of kvs k = None \<Longrightarrow> dict_set kvs k v = kvs @ [(k, v)]"
  by (induction kvs) (auto split: if_splits)

text \<open>
  C3, as amended.  Let the updater's response fail to parse.  Whenever \<open>_update_state\<close>
  returns, the state after the call is the state before it, except under
  \<open>constraint_state.attempted_actions\<close>: a state whose \<open>constraint_state\<close>, when
  present, is an object whose \<open>attempted_actions\<close>, when present, is a list has the
  tracked list stored there when the last action is not empty or the state has a
  \<open>constraint_state\<close>.  The tracked list is the previous list, empty when there was
  none, with the last action appended once when it is not empty and not yet listed.  On
  such a state \<open>_update_state\<close> does return.  So a state without \<open>constraint_state\<close>
  is given one for a non-empty last action, with that action as its only attempted action
  and with empty \<open>negative_constraints\<close> and \<open>visited_locations\<close>; constraints
  without \<open>attempted_actions\<close> are given the tracked list; and a state that has the
  list is the same state after the call when the last action is missing, empty or
  already listed.
\<close>

theorem update_state_parse_failure:
  assumes "json_parse_fails loads response"
  shows "(well_shaped st \<longrightarrow> update_state loads st la response = Inr (kept_state st la))
    \<and> (\<forall>st'. update_state loads st la response = Inr st' \<longrightarrow> st' = kept_state st la)
    \<and> (\<forall>kvs a. st = JObj kvs \<and> map_of kvs ''constraint_state'' = None \<and> la = Some a \<and> a \<noteq> []
          \<longrightarrow> update_state loads st la response
                = Inr (JObj (kvs @ [(''constraint_state'',
                         JObj [(''attempted_actions'', JArr [JStr a]),
                               (''negative_constraints'', JArr []),
                               (''visited_locations'', JArr [])])])))
    \<and> (\<forall>kvs ckvs. st = JObj kvs \<and> map_of kvs ''constraint_state'' = Some (JObj ckvs)
            \<and> map_of ckvs ''attempted_actions'' = None
          \<longrightarrow> update_state loads st la response
                = Inr (JObj (dict_set kvs ''constraint_state''
                         (JObj (ckvs @ [(''attempted_actions'', JArr (tracked_list [] la))])))))
    \<and> (\<forall>kvs ckvs acts. st = JObj kvs \<and> map_of kvs ''constraint_state'' = Some (JObj ckvs)
            \<and> map_of ckvs ''attempted_actions'' = Some (JArr acts)
          \<longrightarrow> update_state loads st la response
                = Inr (JObj (dict_set kvs ''constraint_state''
                         (JObj (dict_set ckvs ''attempted_actions'' (JArr (tracked_list acts la))))))
            \<and> (tracked_list acts la = acts \<longrightarrow> update_state loads st la response = Inr st))"
proof -
  have shaped: "update_state loads st la response = Inr (kept_state st la)" if "well_shaped st"
    using update_state_fails_well_shaped [OF that assms] .
  have returned: "st' = kept_state st la" if r: "update_state loads st la response = Inr st'" for st'
  proof (cases "well_shaped st")
    case True
    from shaped [OF True] r show ?thesis by simp
  next
    case False
    from update_state_fails_ill_shaped [OF False assms r] False show ?thesis
      by (simp add: kept_state_def)
  qed
  have created: "update_state loads st la response
                = Inr (JObj (kvs @ [(''constraint_state'',
                         JObj [(''attempted_actions'', JArr [JStr a]),
                               (''negative_constraints'', JArr []),
                               (''visited_locations'', JArr [])])]))"
    if "st = JObj kvs" and "map_of kvs ''constraint_state'' = None" and "la = Some a" and "a \<noteq> []"
    for kvs a
  proof -
    have ws: "well_shaped st" using that by simp
    show ?thesis
      unfolding shaped [OF ws] using that
      by (simp add: kept_state_def has_action_def store_tracked_def constraints_of_def
          attempted_of_def created_constraints_def tracked_list_def with_attempted_def dict_set_new)
  qed
  have listed: "update_state loads st la response
                = Inr (JObj (dict_set kvs ''constraint_state''
                         (JObj (ckvs @ [(''attempted_actions'', JArr (tracked_list [] la))]))))"
    if "st = JObj kvs" and "map_of kvs ''constraint_state'' = Some (JObj ckvs)"
      and "map_of ckvs ''attempted_actions'' = None"
    for kvs ckvs
  proof -
    have ws: "well_shaped st" using that by simp
    show ?thesis
      unfolding shaped [OF ws] using that
      by (simp add: kept_state_def has_constraints_def store_tracked_def constraints_of_def
          attempted_of_def with_attempted_def dict_set_new)
  qed
  have tracked: "update_state loads st la response
                = Inr (JObj (dict_set kvs ''constraint_state''
                         (JObj (dict_set ckvs ''attempted_actions'' (JArr (tracked_list acts la))))))
            \<and> (tracked_list acts la = acts \<longrightarrow> update_state loads st la response = Inr st)"
    if "st = JObj kvs" and "map_of kvs ''constraint_state'' = Some (JObj ckvs)"
      and "map_of ckvs ''attempted_actions'' = Some (JArr acts)"
    for kvs ckvs acts
  proof -
    have ws: "well_shaped st" using that by simp
    have eq: "update_state loads st la response
                = Inr (JObj (dict_set kvs ''constraint_state''
                         (JObj (dict_set ckvs ''attempted_actions'' (JArr (tracked_list acts la))))))"
      unfolding shaped [OF ws] using that
      by (simp add: kept_state_def has_constraints_def store_tracked_def constraints_of_def
          attempted_of_def with_attempted_def)
    have "dict_set kvs ''constraint_state'' (JObj (dict_set ckvs ''attempted_actions'' (JArr acts))) = kvs"
      using that by (simp add: dict_set_same)
    with eq that(1) show ?thesis by simp
  qed
  from shaped returned created listed tracked show ?thesis
    by blast
qed

lemma goal_only_shaped: "well_shaped (JObj [(''goal_state'', JObj [])])"
  by simp

text \<open>
  A state that holds only a goal, the last action \<open>look\<close> and a response that is no
  JSON: the constraints are created with \<open>look\<close> as the attempted action.  And the
  empty template without a last action stays as it is.
\<close>

theorem update_state_parse_failure_witness:
  "json_parse_fails json_loads ''I cannot comply.''
   \<and> well_shaped (JObj [(''goal_state'', JObj [])])
   \<and> map_of [(''goal_state'', JObj [])] ''constraint_state'' = None
   \<and> update_state json_loads (JObj [(''goal_state'', JObj [])]) (Some ''look'') ''I cannot comply.''
       = Inr (JObj [(''goal_state'', JObj []),
                    (''constraint_state'',
                       JObj [(''attempted_actions'', JArr [JStr ''look'']),
                             (''negative_constraints'', JArr []),
                             (''visited_locations'', JArr [])])])
   \<and> map_of template_items ''constraint_state'' = Some (JObj template_constraints)
   \<and> map_of template_constraints ''attempted_actions'' = Some (JArr [])
   \<and> tracked_list [] None = []
   \<and> update_state json_loads (JObj template_items) None ''I cannot comply.''
       = Inr (JObj template_items)"
proof -
  have n: "map_of [(''goal_state'', JObj [])] ''constraint_state'' = None"
    by simp
  have t: "tracked_list [] None = []"
    by (simp add: tracked_list_def)
  from update_state_parse_failure [OF refusal_fails,
      of "JObj [(''goal_state'', JObj [])]" "Some ''look''"] n
  have a: "update_state json_loads (JObj [(''goal_state'', JObj [])]) (Some ''look'') ''I cannot comply.''
       = Inr (JObj ([(''goal_state'', JObj [])] @ [(''constraint_state'',
                       JObj [(''attempted_actions'', JArr [JStr ''look'']),
                             (''negative_constraints'', JArr []),
                             (''visited_locations'', JArr [])])]))"
    by blast
  from update_state_parse_failure [OF refusal_fails, of "JObj template_items" None]
    template_has_constraints template_has_attempted t
  have b: "update_state json_loads (JObj template_items) None ''I cannot comply.''
       = Inr (JObj template_items)"
    by blast
  from a b n t goal_only_shaped refusal_fails template_has_constraints template_has_attempted
  show ?thesis
    by simp
qed

text \<open>
  C3 as stated fails: from the empty template, with last action \<open>look\<close>, a response
  that is no JSON leaves a state that differs from the state before the call, since
  \<open>look\<close> has been appended to the attempted actions before the response is read.
  And the call need not return: an initialisation response with a \<open>constraint_state\<close>
  of \<open>null\<close> is accepted by \<open>reset\<close>, and on that state \<open>_update_state\<close> raises
  \<open>TypeError\<close> in its tracking block.
\<close>

theorem update_state_parse_failure_counterexample:
  "json_parse_fails json_loads ''I cannot comply.''
   \<and> update_state json_loads get_empty_state (Some ''look'') ''I cannot comply.''
       = Inr (JObj [(''goal_state'',
                       JObj [(''global_instruction'', JStr ''''), (''sub_goal_queue'', JArr []),
                             (''current_objective'', JStr '''')]),
                    (''world_state'',
                       JObj [(''location'', JStr ''unknown''), (''inventory'', JArr []),
                             (''entity_map'', JObj []), (''discovered_objects'', JArr [])]),
                    (''constraint_state'',
                       JObj [(''negative_constraints'', JArr []), (''visited_locations'', JArr []),
                             (''attempted_actions'', JArr [JStr ''look''])])])
   \<and> update_state json_loads get_empty_state (Some ''look'') ''I cannot comply.''
       \<noteq> Inr get_empty_state
   \<and> zipact_reset json_loads ''find a mug'' ''{\"goal_state\": {}, \"constraint_state\": null}''
       = Inr (JObj [(''goal_state'', JObj [(''global_instruction'', JStr ''find a mug'')]),
                    (''constraint_state'', JNull)])
   \<and> update_state json_loads
        (JObj [(''goal_state'', JObj [(''global_instruction'', JStr ''find a mug'')]),
               (''constraint_state'', JNull)])
        (Some ''look'') ''I cannot comply.''
       = Inl TypeError"
  by code_simp

text \<open>
  C1, as amended.  Let the state be an object whose \<open>constraint_state\<close>, when present,
  is an object whose \<open>attempted_actions\<close>, when present, is a list.  The tracked list
  is the previous list, empty when there was none, with the last action appended once
  when it is not empty and not yet listed.  When the reply (or, on a parse failure, the
  state the tracking block left) is an object with an object under \<open>constraint_state\<close>,
  \<open>_update_state\<close> returns and the state after the call is the reply with the tracked
  list stored under \<open>constraint_state.attempted_actions\<close>, whatever the reply had
  there, and with everything else as the reply has it.  When the parsed reply is falsy,
  the state after the call is the state before it, with the tracked list stored in its
  constraints when the last action is not empty.
\<close>

theorem update_state_tracks_attempted_actions:
  assumes "well_shaped st"
  shows "(\<forall>nkvs nckvs.
          parse_json loads response (Some (after_tracking st la)) = JObj nkvs
          \<and> map_of nkvs ''constraint_state'' = Some (JObj nckvs)
          \<longrightarrow> update_state loads st la response
                = Inr (JObj (dict_set nkvs ''constraint_state''
                         (JObj (dict_set nckvs ''attempted_actions''
                                  (JArr (tracked_list (attempted_of st) la)))))))
    \<and> (\<not> truthy (parse_json loads response (Some (after_tracking st la)))
          \<longrightarrow> update_state loads st la response = Inr (after_tracking st la))
    \<and> (has_action la
          \<longrightarrow> py_getitem (after_tracking st la) ''constraint_state''
                = Inr (JObj (dict_set (constraints_of st) ''attempted_actions''
                         (JArr (tracked_list (attempted_of st) la)))))"
proof -
  have override: "update_state loads st la response
                = Inr (JObj (dict_set nkvs ''constraint_state''
                         (JObj (dict_set nckvs ''attempted_actions''
                                  (JArr (tracked_list (attempted_of st) la))))))"
    if "parse_json loads response (Some (after_tracking st la)) = JObj nkvs"
      and "map_of nkvs ''constraint_state'' = Some (JObj nckvs)"
    for nkvs nckvs
    using update_state_overrides [OF assms that] by (simp add: with_attempted_def)
  have falsy: "update_state loads st la response = Inr (after_tracking st la)"
    if "\<not> truthy (parse_json loads response (Some (after_tracking st la)))"
    unfolding update_state_unfolded [OF assms] using that by simp
  have stored: "py_getitem (after_tracking st la) ''constraint_state''
                = Inr (JObj (dict_set (constraints_of st) ''attempted_actions''
                         (JArr (tracked_list (attempted_of st) la))))"
    if "has_action la"
  proof -
    from assms obtain kvs where "st = JObj kvs" by (cases st) auto
    with that show ?thesis
      by (simp add: after_tracking_def store_tracked_def with_attempted_def map_of_dict_set)
  qed
  from override falsy stored show ?thesis
    by blast
qed

lemma model_reply_parses:
  "parse_json json_loads
     ''```json {\"goal_state\": {}, \"constraint_state\": {\"attempted_actions\": [\"zzz\"], }} ```''
     (Some d)
   = JObj [(''goal_state'', JObj []),
           (''constraint_state'', JObj [(''attempted_actions'', JArr [JStr ''zzz''])])]"
  by code_simp

lemma empty_reply_parses: "parse_json json_loads ''{}'' (Some d) = JObj []"
  by code_simp

lemma goal_only_tracked:
  "tracked_list (attempted_of (JObj [(''goal_state'', JObj [])])) (Some ''look'') = [JStr ''look'']"
  by (simp add: tracked_list_def attempted_of_def constraints_of_def created_constraints_def)

lemma goal_only_constraints:
  "constraints_of (JObj [(''goal_state'', JObj [])]) = created_constraints"
  by (simp add: constraints_of_def)

text \<open>
  From a state that holds only a goal, with last action \<open>look\<close>: the reply's own list
  \<open>zzz\<close> is overridden by the tracked list and the rest of the reply is kept; and on
  the reply \<open>{}\<close> the state keeps its goal and has the created constraints with
  \<open>look\<close>.
\<close>

theorem update_state_tracks_attempted_actions_witness:
  "well_shaped (JObj [(''goal_state'', JObj [])]) \<and> has_action (Some ''look'')
   \<and> update_state json_loads (JObj [(''goal_state'', JObj [])]) (Some ''look'')
        ''```json {\"goal_state\": {}, \"constraint_state\": {\"attempted_actions\": [\"zzz\"], }} ```''
      = Inr (JObj [(''goal_state'', JObj []),
                   (''constraint_state'', JObj [(''attempted_actions'', JArr [JStr ''look''])])])
   \<and> \<not> truthy (parse_json json_loads ''{}''
                  (Some (after_tracking (JObj [(''goal_state'', JObj [])]) (Some ''look''))))
   \<and> update_state json_loads (JObj [(''goal_state'', JObj [])]) (Some ''look'') ''{}''
      = Inr (JObj [(''goal_state'', JObj []),
                   (''constraint_state'',
                      JObj [(''attempted_actions'', JArr [JStr ''look'']),
                            (''negative_constraints'', JArr []),
                            (''visited_locations'', JArr [])])])"
proof -
  have h: "has_action (Some ''look'')"
    by (simp add: has_action_def)
  have cs: "map_of [(''goal_state'', JObj []),
           (''constraint_state'', JObj [(''attempted_actions'', JArr [JStr ''zzz''])])]
        ''constraint_state'' = Some (JObj [(''attempted_actions'', JArr [JStr ''zzz''])])"
    by simp
  have e: "\<not> truthy (parse_json json_loads ''{}''
                  (Some (after_tracking (JObj [(''goal_state'', JObj [])]) (Some ''look''))))"
    by (simp add: empty_reply_parses)
  have at: "after_tracking (JObj [(''goal_state'', JObj [])]) (Some ''look'')
      = JObj [(''goal_state'', JObj []),
              (''constraint_state'',
                 JObj [(''attempted_actions'', JArr [JStr ''look'']),
                       (''negative_constraints'', JArr []),
                       (''visited_locations'', JArr [])])]"
    by (simp add: after_tracking_def h store_tracked_def goal_only_tracked goal_only_constraints
        with_attempted_def created_constraints_def)
  from update_state_tracks_attempted_actions
         [OF goal_only_shaped, of json_loads
           "''```json {\"goal_state\": {}, \"constraint_state\": {\"attempted_actions\": [\"zzz\"], }} ```''"
           "Some ''look''"]
    model_reply_parses cs
  have "update_state json_loads (JObj [(''goal_state'', JObj [])]) (Some ''look'')
        ''```json {\"goal_state\": {}, \"constraint_state\": {\"attempted_actions\": [\"zzz\"], }} ```''
      = Inr (JObj (dict_set [(''goal_state'', JObj []),
                (''constraint_state'', JObj [(''attempted_actions'', JArr [JStr ''zzz''])])]
               ''constraint_state''
               (JObj (dict_set [(''attempted_actions'', JArr [JStr ''zzz''])] ''attempted_actions''
                  (JArr (tracked_list (attempted_of (JObj [(''goal_state'', JObj [])])) (Some ''look'')))))))"
    by blast
  then have a: "update_state json_loads (JObj [(''goal_state'', JObj [])]) (Some ''look'')
        ''```json {\"goal_state\": {}, \"constraint_state\": {\"attempted_actions\": [\"zzz\"], }} ```''
      = Inr (JObj [(''goal_state'', JObj []),
                   (''constraint_state'', JObj [(''attempted_actions'', JArr [JStr ''look''])])])"
    by (simp add: goal_only_tracked)
  from update_state_tracks_attempted_actions
         [OF goal_only_shaped, of json_loads "''{}''" "Some ''look''"] e
  have "update_state json_loads (JObj [(''goal_state'', JObj [])]) (Some ''look'') ''{}''
      = Inr (after_tracking (JObj [(''goal_state'', JObj [])]) (Some ''look''))"
    by blast
  then have b: "update_state json_loads (JObj [(''goal_state'', JObj [])]) (Some ''look'') ''{}''
      = Inr (JObj [(''goal_state'', JObj []),
                   (''constraint_state'',
                      JObj [(''attempted_actions'', JArr [JStr ''look'']),
                            (''negative_constraints'', JArr []),
                            (''visited_locations'', JArr [])])])"
    unfolding at .
  from a b e h goal_only_shaped show ?thesis
    by blast
qed

text \<open>
  C1 as stated fails.  An empty last action is not appended: the tracking block is
  guarded by the truth of the last action.  The state need not hold a list: \<open>reset\<close>
  accepts an initialisation response whose \<open>attempted_actions\<close> is a string, which the
  call passes on as the tracked value when the last action occurs in it, and one whose
  \<open>constraint_state\<close> is \<open>null\<close>, on which the call raises.  And a reply that is an
  object without \<open>constraint_state\<close> becomes the state as it is, so that the tracked
  list is lost, against the comment in the code that announces its preservation.
\<close>

theorem update_state_tracks_attempted_actions_counterexample:
  "update_state json_loads get_empty_state (Some '''') ''I cannot comply.''
     = Inr get_empty_state
   \<and> zipact_reset json_loads ''find a mug''
        ''{\"goal_state\": {}, \"constraint_state\": {\"attempted_actions\": \"look around\"}}''
     = Inr (JObj [(''goal_state'', JObj [(''global_instruction'', JStr ''find a mug'')]),
                  (''constraint_state'', JObj [(''attempted_actions'', JStr ''look around'')])])
   \<and> update_state json_loads
        (JObj [(''goal_state'', JObj [(''global_instruction'', JStr ''find a mug'')]),
               (''constraint_state'', JObj [(''attempted_actions'', JStr ''look around'')])])
        (Some ''look'') ''{\"constraint_state\": {\"attempted_actions\": [\"zzz\"]}}''
     = Inr (JObj [(''constraint_state'', JObj [(''attempted_actions'', JStr ''look around'')])])
   \<and> update_state json_loads (JObj [(''goal_state'', JObj []), (''constraint_state'', JNull)])
        (Some ''look'') ''{\"constraint_state\": {\"attempted_actions\": [\"zzz\"]}}''
     = Inl TypeError
   \<and> update_state json_loads get_empty_state (Some ''look'') ''{\"goal_state\": {}}''
     = Inr (JObj [(''goal_state'', JObj [])])
   \<and> py_getitem (JObj [(''goal_state'', JObj [])]) ''constraint_state'' = Inl KeyError"
  by code_simp

section \<open>Properties of the reset\<close>

text \<open>
  C9, as amended.  Let the value \<open>_parse_json\<close> gives for the initialisation response
  (the parsed value, or the empty template when the response does not parse) be an object
  with an object under \<open>goal_state\<close>.  Then \<open>reset\<close> returns.  The state it leaves is
  the parsed one when its \<open>global_instruction\<close> is truthy, and otherwise the parsed one
  with the given instruction stored under \<open>goal_state.global_instruction\<close>.  A
  response that does not parse always leaves the empty template with the instruction
  stored there, which is not empty when the instruction is not.
\<close>

theorem zipact_reset_sets_instruction:
  assumes "parse_json loads response (Some get_empty_state) = JObj kvs"
    and "map_of kvs ''goal_state'' = Some (JObj gkvs)"
  shows "(\<forall>gi. map_of gkvs ''global_instruction'' = Some gi \<and> truthy gi
            \<longrightarrow> zipact_reset loads instr response = Inr (JObj kvs))
    \<and> ((\<forall>gi. map_of gkvs ''global_instruction'' = Some gi \<longrightarrow> \<not> truthy gi)
          \<longrightarrow> zipact_reset loads instr response
                = Inr (JObj (dict_set kvs ''goal_state''
                         (JObj (dict_set gkvs ''global_instruction'' (JStr instr))))))
    \<and> (json_parse_fails loads response
          \<longrightarrow> zipact_reset loads instr response
                = Inr (JObj (dict_set template_items ''goal_state''
                         (JObj (dict_set template_goal ''global_instruction'' (JStr instr))))))"
proof -
  have keep: "zipact_reset loads instr response = Inr (JObj kvs)"
    if "map_of gkvs ''global_instruction'' = Some gi" and "truthy gi" for gi
    using that assms by (simp add: zipact_reset_def then_do_Inr)
  have store: "zipact_reset loads instr response
                = Inr (JObj (dict_set kvs ''goal_state''
                         (JObj (dict_set gkvs ''global_instruction'' (JStr instr)))))"
    if "\<forall>gi. map_of gkvs ''global_instruction'' = Some gi \<longrightarrow> \<not> truthy gi"
    using that assms
    by (cases "map_of gkvs ''global_instruction''") (simp_all add: zipact_reset_def then_do_Inr)
  have fails: "zipact_reset loads instr response
                = Inr (JObj (dict_set template_items ''goal_state''
                         (JObj (dict_set template_goal ''global_instruction'' (JStr instr)))))"
    if f: "json_parse_fails loads response"
  proof -
    have "parse_json loads response (Some get_empty_state) = JObj template_items"
      using parse_json_fails [OF f] by (simp add: get_empty_state_items)
    then show ?thesis
      by (simp add: zipact_reset_def then_do_Inr template_items_def template_goal_def)
  qed
  from keep store fails show ?thesis
    by blast
qed

lemma init_reply_parses:
  "parse_json json_loads ''{\"goal_state\": {\"sub_goal_queue\": [\"find a mug\"]}}'' (Some d)
   = JObj [(''goal_state'', JObj [(''sub_goal_queue'', JArr [JStr ''find a mug''])])]"
  by code_simp

text \<open>A parsed state without \<open>global_instruction\<close>: the instruction is stored.\<close>

theorem zipact_reset_sets_instruction_witness:
  "parse_json json_loads ''{\"goal_state\": {\"sub_goal_queue\": [\"find a mug\"]}}''
      (Some get_empty_state)
     = JObj [(''goal_state'', JObj [(''sub_goal_queue'', JArr [JStr ''find a mug''])])]
   \<and> zipact_reset json_loads ''put a mug on the desk''
        ''{\"goal_state\": {\"sub_goal_queue\": [\"find a mug\"]}}''
     = Inr (JObj [(''goal_state'',
                    JObj [(''sub_goal_queue'', JArr [JStr ''find a mug'']),
                          (''global_instruction'', JStr ''put a mug on the desk'')])])"
proof -
  have g: "map_of [(''goal_state'', JObj [(''sub_goal_queue'', JArr [JStr ''find a mug''])])]
             ''goal_state'' = Some (JObj [(''sub_goal_queue'', JArr [JStr ''find a mug''])])"
    by simp
  have none: "\<forall>gi. map_of [(''sub_goal_queue'', JArr [JStr ''find a mug''])] ''global_instruction''
             = Some gi \<longrightarrow> \<not> truthy gi"
    by simp
  from zipact_reset_sets_instruction [OF init_reply_parses g, of "''put a mug on the desk''"] none
  have "zipact_reset json_loads ''put a mug on the desk''
        ''{\"goal_state\": {\"sub_goal_queue\": [\"find a mug\"]}}''
     = Inr (JObj (dict_set [(''goal_state'', JObj [(''sub_goal_queue'', JArr [JStr ''find a mug''])])]
                    ''goal_state''
                    (JObj (dict_set [(''sub_goal_queue'', JArr [JStr ''find a mug''])]
                             ''global_instruction'' (JStr ''put a mug on the desk'')))))"
    by blast
  then have "zipact_reset json_loads ''put a mug on the desk''
        ''{\"goal_state\": {\"sub_goal_queue\": [\"find a mug\"]}}''
     = Inr (JObj [(''goal_state'',
                    JObj [(''sub_goal_queue'', JArr [JStr ''find a mug'']),
                          (''global_instruction'', JStr ''put a mug on the desk'')])])"
    by simp
  with init_reply_parses show ?thesis
    by blast
qed

text \<open>
  C9 as stated fails in two ways.  With an empty instruction and a response that does
  not parse, \<open>reset\<close> leaves the empty template, whose \<open>global_instruction\<close> is empty.
  And on the response \<open>{}\<close>, a JSON object without \<open>goal_state\<close>, the lookup with
  defaults finds no instruction and the store into \<open>self.state["goal_state"]\<close> raises
  \<open>KeyError\<close>; on a response that is a JSON list, \<open>.get\<close> raises \<open>AttributeError\<close>.
\<close>

theorem zipact_reset_sets_instruction_counterexample:
  "zipact_reset json_loads '''' ''I cannot comply.'' = Inr get_empty_state
   \<and> then_do (py_getitem get_empty_state ''goal_state'')
        (\<lambda>g. py_getitem g ''global_instruction'') = Inr (JStr '''')
   \<and> zipact_reset json_loads ''put a mug on the desk'' ''{}'' = Inl KeyError
   \<and> zipact_reset json_loads ''put a mug on the desk'' ''[1, 2]'' = Inl AttributeError"
  by code_simp

section \<open>Properties of the JSON extraction\<close>

lemma split_str_not_Nil: "split_str sep s \<noteq> []"
  by (induction sep s rule: split_str.induct) (auto split: list.splits)

lemma hd_split_str: "sep \<noteq> [] \<Longrightarrow> hd (split_str sep s) = before sep s"
proof (induction sep s rule: split_str.induct)
  case (1 sep)
  then show ?case by simp
next
  case (2 sep c cs)
  then show ?case
    using split_str_not_Nil [of sep cs] by (auto split: list.splits)
qed

lemma startswith_append_self: "startswith (sep @ r) sep"
  by (simp add: startswith_def)

lemma startswith_longer:
  assumes "length sep \<le> length x"
  shows "startswith (x @ r) sep \<longleftrightarrow> startswith x sep"
  using assms by (simp add: startswith_def)

lemma startswith_butlast:
  assumes "sep \<noteq> []"
  shows "startswith ((c # x) @ sep @ r) sep \<longleftrightarrow> startswith ((c # x) @ butlast sep) sep"
proof -
  have sp: "sep = butlast sep @ [last sep]"
    using assms by simp
  have eq: "((c # x) @ butlast sep) @ (last sep # r) = (c # x) @ sep @ r"
    by (subst (3) sp) simp
  have len: "length sep \<le> length ((c # x) @ butlast sep)"
    by simp
  have "startswith (((c # x) @ butlast sep) @ (last sep # r)) sep
        \<longleftrightarrow> startswith ((c # x) @ butlast sep) sep"
    by (rule startswith_longer [OF len])
  then show ?thesis
    by (simp only: eq)
qed

lemma startswith_prefix_of:
  "startswith s (t @ f) \<Longrightarrow> startswith s t"
  by (auto simp: startswith_def dest: arg_cong [where f = "take (length t)"] simp: min_def)

lemma startswith_extend:
  assumes "startswith p t"
  shows "startswith (p @ r) t"
proof -
  from assms have "length (take (length t) p) = length t"
    by (simp add: startswith_def)
  then have "length t \<le> length p"
    by simp
  with assms show ?thesis
    by (simp add: startswith_longer)
qed

lemma contains_mid: "contains (pre @ sep @ r) sep"
proof (induction pre)
  case Nil
  show ?case
    by (cases "sep @ r") (auto simp: startswith_def intro: startswith_append_self
        dest: arg_cong [where f = "take (length sep)"])
next
  case (Cons a pre)
  then show ?case by simp
qed

lemma contains_prefix_of: "contains s (t @ f) \<Longrightarrow> contains s t"
  by (induction s) (auto dest: startswith_prefix_of)

lemma contains_extend: "contains s t \<Longrightarrow> contains (s @ r) t"
proof (induction s)
  case Nil
  then show ?case
    using contains_mid [of "[]" "[]" r] by simp
next
  case (Cons a s)
  then show ?case
    using startswith_extend [of "a # s" t r] by auto
qed

lemma split_str_first:
  assumes "sep \<noteq> []" and "\<not> contains (pre @ butlast sep) sep"
  shows "split_str sep (pre @ sep @ r) = pre # split_str sep r"
  using assms(2)
proof (induction pre)
  case Nil
  obtain c cs where sep: "sep = c # cs"
    using assms(1) by (cases sep) auto
  show ?case
    using startswith_append_self [of sep r] by (simp add: sep)
next
  case (Cons a pre)
  from Cons.prems have ns: "\<not> startswith ((a # pre) @ butlast sep) sep"
    and nc: "\<not> contains (pre @ butlast sep) sep"
    by simp_all
  from ns have "\<not> startswith ((a # pre) @ sep @ r) sep"
    using startswith_butlast [OF assms(1), of a pre r] by simp
  then show ?case
    using Cons.IH [OF nc] by simp
qed

lemma split_str_none: "\<not> contains s sep \<Longrightarrow> split_str sep s = [s]"
  by (induction sep s rule: split_str.induct) auto

lemma before_none: "\<not> contains s sep \<Longrightarrow> before sep s = s"
  by (induction s) auto

lemma before_first:
  assumes "sep \<noteq> []" and "\<not> contains (p @ butlast sep) sep"
  shows "before sep (p @ sep @ r) = p"
  using hd_split_str [OF assms(1), of "p @ sep @ r"] split_str_first [OF assms, of r] by simp

lemma before_is_prefix: "\<exists>r. s = before sep s @ r"
  by (induction s) auto

lemma before_nested:
  assumes "t \<noteq> []"
    and "\<not> contains (body @ butlast t) t"
    and "startswith (t @ post) (t @ f) \<or> startswith (before (t @ f) (t @ post)) t"
  shows "before t (before (t @ f) (body @ t @ post)) = body"
  using assms(2)
proof (induction body)
  case Nil
  obtain c cs where tp: "t @ post = c # cs"
    using assms(1) by (cases "t @ post") auto
  from assms(3) show ?case
  proof
    assume "startswith (t @ post) (t @ f)"
    then show ?thesis by (simp add: tp)
  next
    assume s: "startswith (before (t @ f) (t @ post)) t"
    then have "before (t @ f) (t @ post) \<noteq> []"
      using assms(1) by (auto simp: startswith_def)
    then obtain d ds where b: "before (t @ f) (t @ post) = d # ds"
      by (cases "before (t @ f) (t @ post)") auto
    from s show ?thesis
      by (simp add: b)
  qed
next
  case (Cons b bs)
  from Cons.prems have ns: "\<not> startswith ((b # bs) @ butlast t) t"
    and nc: "\<not> contains (bs @ butlast t) t"
    by simp_all
  from ns have nst: "\<not> startswith ((b # bs) @ t @ post) t"
    using startswith_butlast [OF assms(1), of b bs post] by simp
  then have nsf: "\<not> startswith ((b # bs) @ t @ post) (t @ f)"
    using startswith_prefix_of by blast
  obtain r where r: "bs @ t @ post = before (t @ f) (bs @ t @ post) @ r"
    using before_is_prefix by blast
  have "\<not> startswith (b # before (t @ f) (bs @ t @ post)) t"
  proof
    assume "startswith (b # before (t @ f) (bs @ t @ post)) t"
    from startswith_extend [OF this, of r] r have "startswith (b # bs @ t @ post) t"
      by simp
    with nst show False by simp
  qed
  then show ?case
    using nsf Cons.IH [OF nc] by simp
qed

lemma py_isspace_not_comma: "py_isspace c \<Longrightarrow> c \<noteq> CHR '',''"
  by (auto simp: py_isspace_def)

lemma without_trailing_commas_spaces:
  "\<forall>c \<in> set ws. py_isspace c \<Longrightarrow>
   without_trailing_commas (ws @ rest) = ws @ without_trailing_commas rest"
  by (induction ws) (auto dest: py_isspace_not_comma)

lemma sub_is_without: "sub_trailing_commas s = without_trailing_commas s"
proof (induction s rule: sub_trailing_commas.induct)
  case 1
  then show ?case by simp
next
  case (2 c cs)
  show ?case
  proof (cases "c = CHR '',''")
    case False
    with 2(4) show ?thesis by simp
  next
    case True
    show ?thesis
    proof (cases "dropWhile py_isspace cs")
      case Nil
      from 2(1) [OF True Nil] show ?thesis
        by (simp add: True Nil)
    next
      case (Cons b rest)
      show ?thesis
      proof (cases "b = CHR ''}'' \<or> b = CHR '']''")
        case False
        from 2(3) [OF True Cons False] False show ?thesis
          by (simp add: True Cons)
      next
        case closer: True
        have cs: "cs = takeWhile py_isspace cs @ b # rest"
          using Cons takeWhile_dropWhile_id [of py_isspace cs] by simp
        have ws: "\<forall>x \<in> set (takeWhile py_isspace cs). py_isspace x"
          by (auto dest: set_takeWhileD)
        have b: "b \<noteq> CHR '',''"
          using closer by auto
        have "without_trailing_commas (takeWhile py_isspace cs @ b # rest)
              = takeWhile py_isspace cs @ without_trailing_commas (b # rest)"
          by (rule without_trailing_commas_spaces [OF ws])
        also have "without_trailing_commas (b # rest) = b # without_trailing_commas rest"
          using b by simp
        finally have "without_trailing_commas (takeWhile py_isspace cs @ b # rest)
              = takeWhile py_isspace cs @ b # without_trailing_commas rest" .
        then have w: "without_trailing_commas cs
              = takeWhile py_isspace cs @ b # without_trailing_commas rest"
          using cs by simp
        have ih: "sub_trailing_commas rest = without_trailing_commas rest"
          by (rule 2(2) [OF True Cons closer])
        have l: "sub_trailing_commas (c # cs)
              = takeWhile py_isspace cs @ b # sub_trailing_commas rest"
          using closer by (simp add: True Cons)
        have r: "without_trailing_commas (c # cs) = without_trailing_commas cs"
          using closer by (simp add: True Cons)
        show ?thesis
          unfolding l r w ih ..
      qed
    qed
  qed
qed

lemma extract_json_unfenced:
  assumes "\<not> contains text ''```''"
  shows "extract_json text = Some (py_strip text)"
proof -
  have "\<not> contains text (''```'' @ ''json'')"
    using assms contains_prefix_of by blast
  then have "\<not> contains text ''```json''"
    by simp
  with assms show ?thesis
    by (simp add: extract_json_def)
qed

lemma split_str_hd_tl:
  "sep \<noteq> [] \<Longrightarrow> split_str sep s = before sep s # tl (split_str sep s)"
  using hd_split_str [of sep s] split_str_not_Nil [of sep s]
  by (cases "split_str sep s") auto

lemma between_fences_first:
  assumes "fence \<noteq> []" and "\<not> contains (pre @ butlast fence) fence"
  shows "between_fences fence (pre @ fence @ rest)
         = Some (py_strip (before ''```'' (before fence rest)))"
proof -
  have s1: "split_str fence (pre @ fence @ rest)
            = pre # before fence rest # tl (split_str fence rest)"
    using split_str_first [OF assms, of rest] split_str_hd_tl [OF assms(1), of rest] by simp
  have "split_str ''```'' (before fence rest)
            = before ''```'' (before fence rest) # tl (split_str ''```'' (before fence rest))"
    by (rule split_str_hd_tl) simp
  then obtain bs where s2: "split_str ''```'' (before fence rest)
            = before ''```'' (before fence rest) # bs"
    by blast
  show ?thesis
    unfolding between_fences_def s1 by (simp add: s2)
qed

lemma closing_fence_overlap:
  assumes "\<not> startswith post ''`json''" and "\<not> startswith post ''``json''"
  shows "startswith (''```'' @ post) (''```'' @ ''json'')
         \<or> startswith (before (''```'' @ ''json'') (''```'' @ post)) ''```''"
  using assms by (auto simp: startswith_def)

lemma extract_json_json_block:
  assumes "text = pre @ ''```json'' @ p @ ''```'' @ post"
    and "\<not> contains (pre @ ''```jso'') ''```json''"
    and "\<not> contains (p @ ''``'') ''```''"
    and "\<not> startswith post ''`json''" and "\<not> startswith post ''``json''"
  shows "extract_json text = Some (py_strip p)"
proof -
  have c: "contains text ''```json''"
    unfolding assms(1) by (rule contains_mid)
  have pre: "\<not> contains (pre @ butlast ''```json'') ''```json''"
    using assms(2) by simp
  have body: "\<not> contains (p @ butlast ''```'') ''```''"
    using assms(3) by simp
  have "before ''```'' (before (''```'' @ ''json'') (p @ ''```'' @ post)) = p"
    by (rule before_nested [OF _ body closing_fence_overlap [OF assms(4,5)]]) simp
  then have b: "before ''```'' (before ''```json'' (p @ ''```'' @ post)) = p"
    by simp
  have "between_fences ''```json'' text = Some (py_strip p)"
    unfolding assms(1) using between_fences_first [OF _ pre, of "p @ ''```'' @ post"] b by simp
  with c show ?thesis
    by (simp add: extract_json_def)
qed

lemma extract_json_plain_block:
  assumes "text = pre @ ''```'' @ p @ ''```'' @ post"
    and "\<not> contains text ''```json''"
    and "\<not> contains (pre @ ''``'') ''```''"
    and "\<not> contains (p @ ''``'') ''```''"
  shows "extract_json text = Some (py_strip p)"
proof -
  have c: "contains text ''```''"
    unfolding assms(1) by (rule contains_mid)
  have pre: "\<not> contains (pre @ butlast ''```'') ''```''"
    using assms(3) by simp
  have body: "\<not> contains (p @ butlast ''```'') ''```''"
    using assms(4) by simp
  have np: "\<not> contains p ''```''"
    using assms(4) contains_extend by blast
  have "before ''```'' (p @ ''```'' @ post) = p"
    by (rule before_first [OF _ body]) simp
  then have b: "before ''```'' (before ''```'' (p @ ''```'' @ post)) = p"
    using before_none [OF np] by simp
  have "between_fences ''```'' text = Some (py_strip p)"
    unfolding assms(1) using between_fences_first [OF _ pre, of "p @ ''```'' @ post"] b by simp
  with c assms(2) show ?thesis
    by (simp add: extract_json_def)
qed

lemma extract_json_payload: "payload_of text p \<Longrightarrow> extract_json text = Some (py_strip p)"
  unfolding payload_of_def
  using extract_json_unfenced extract_json_json_block extract_json_plain_block by blast

text \<open>
  C5.  Let \<open>p\<close> be the payload of the response text: the whole text when it has no
  marker, and otherwise the text between the first \<open>```json\<close> marker (or, when there is
  none, the first \<open>```\<close> marker) and the next \<open>```\<close> marker.  If \<open>p\<close>, without the
  whitespace around it and without the commas that precede a closing brace or bracket,
  is valid JSON, then \<open>_parse_json\<close> returns the value it parses to, whatever the
  default is.  This holds for every reader \<open>loads\<close> and every value, a JSON object
  included.
\<close>

theorem parse_json_repairs_trailing_commas:
  assumes "payload_of text p"
    and "loads (without_trailing_commas (py_strip p)) = Some v"
  shows "parse_json loads text dflt = v"
  using assms(2) extract_json_payload [OF assms(1)]
  by (simp add: parse_json_def sub_is_without)

lemma fenced_reply_payload:
  "payload_of ''Updated state: ```json {\"a\": [1, 2, ], } ``` done'' '' {\"a\": [1, 2, ], } ''"
  unfolding payload_of_def
  apply (rule disjI2)
  apply (rule disjI1)
  apply (rule exI [of _ "''Updated state: ''"])
  apply (rule exI [of _ "'' done''"])
  apply code_simp
  done

lemma fenced_reply_repaired:
  "json_loads (without_trailing_commas (py_strip '' {\"a\": [1, 2, ], } ''))
   = Some (JObj [(''a'', JArr [JInt 1, JInt 2])])"
  by code_simp

text \<open>A fenced reply with a trailing comma in its list and one in its object.\<close>

theorem parse_json_repairs_trailing_commas_witness:
  "payload_of ''Updated state: ```json {\"a\": [1, 2, ], } ``` done'' '' {\"a\": [1, 2, ], } ''
   \<and> json_loads (without_trailing_commas (py_strip '' {\"a\": [1, 2, ], } ''))
       = Some (JObj [(''a'', JArr [JInt 1, JInt 2])])
   \<and> parse_json json_loads ''Updated state: ```json {\"a\": [1, 2, ], } ``` done''
        (Some get_empty_state)
       = JObj [(''a'', JArr [JInt 1, JInt 2])]"
  using parse_json_repairs_trailing_commas [where loads = json_loads and dflt = "Some get_empty_state",
      OF fenced_reply_payload fenced_reply_repaired] fenced_reply_payload fenced_reply_repaired
  by blast

section \<open>Properties of the observation-masking agent\<close>

lemma om_reset_reached:
  "agent_reset (om_ops respond :: (om_core, unit) agent_ops) a instr = Inr ag0 \<Longrightarrow>
   om_reached a instr [] ag0"
  by (auto simp: agent_reset_def om_ops_def om_core_reset_def om_reached_def)

lemma om_step_reached:
  "agent_step (om_ops respond :: (om_core, unit) agent_ops) ag obs = Inr (act, ag1) \<Longrightarrow>
   om_reached a instr obss ag \<Longrightarrow> om_reached a instr (obss @ [obs]) ag1"
  by (auto simp: agent_step_def om_ops_def om_decide_def om_reached_def Let_def
      split: if_splits)

lemma om_steps_reached:
  "om_steps respond ag0 rest_obs = Inr ag \<Longrightarrow> om_reached a instr obss ag0 \<Longrightarrow>
   om_reached a instr (obss @ rest_obs) ag"
proof (induction rest_obs arbitrary: ag0 obss)
  case Nil
  then show ?case by simp
next
  case (Cons obs rest_obs)
  from Cons.prems(1) obtain act ag1 where
    st: "agent_step (om_ops respond :: (om_core, unit) agent_ops) ag0 obs = Inr (act, ag1)"
    and rest: "om_steps respond ag1 rest_obs = Inr ag"
    by (auto split: sum.splits)
  from om_step_reached [OF st Cons.prems(2)] have "om_reached a instr (obss @ [obs]) ag1" .
  from Cons.IH [OF rest this] show ?case by simp
qed

lemma masked_then_rest_nth:
  assumes "n \<le> length xs" and "i < length xs"
  shows "(replicate n x @ drop n xs) ! i = (if i < n then x else xs ! i)"
  using assms by (simp add: nth_append)

lemma shown_nth:
  assumes "length xs = t" and "i < t"
  shows "(replicate (t - nat (min (int t) k)) masked @ drop (t - nat (min (int t) k)) xs) ! i
         = (if int i < int (length xs) - k then masked else xs ! i)"
proof -
  define n where "n = t - nat (min (int t) k)"
  have iff: "i < n \<longleftrightarrow> int i < int t - k"
    unfolding n_def using assms(2) by (cases "k \<le> 0") (auto simp: min_def)
  have "n \<le> length xs" and "i < length xs"
    using assms by (simp_all add: n_def)
  from masked_then_rest_nth [OF this, of masked] iff assms(1) show ?thesis
    unfolding n_def by simp
qed

lemma history_parts_masked:
  assumes "observations c = obss @ [obs]" and "length (thoughts c) = length obss"
    and "length (actions c) = length obss"
  shows "history_parts c = masked_history (keep_recent c) obss obs (thoughts c) (actions c)"
proof -
  let ?t = "Suc (length obss)"
  have len: "length (obss @ [obs]) = ?t" by simp
  have entry: "history_entry c i =
        [''Observation '' @ str_nat (i + 1) @ '': ''
           @ (replicate (?t - nat (min (int ?t) (keep_recent c))) masked
              @ drop (?t - nat (min (int ?t) (keep_recent c))) (obss @ [obs])) ! i]
        @ (if i < length obss
           then [''Thought '' @ str_nat (i + 1) @ '': '' @ thoughts c ! i,
                 ''Action '' @ str_nat (i + 1) @ '': '' @ actions c ! i]
           else [])" if "i < ?t" for i
    unfolding shown_nth [OF len that, of "keep_recent c"]
    by (simp add: history_entry_def Let_def assms)
  have "history_parts c = concat (map (history_entry c) [0..<?t])"
    by (simp add: history_parts_def assms(1))
  also have "map (history_entry c) [0..<?t] = map
          (\<lambda>i. [''Observation '' @ str_nat (i + 1) @ '': ''
                   @ (replicate (?t - nat (min (int ?t) (keep_recent c))) masked
                      @ drop (?t - nat (min (int ?t) (keep_recent c))) (obss @ [obs])) ! i]
                @ (if i < length obss
                   then [''Thought '' @ str_nat (i + 1) @ '': '' @ thoughts c ! i,
                         ''Action '' @ str_nat (i + 1) @ '': '' @ actions c ! i]
                   else []))
          [0..<?t]"
  proof (rule map_cong [OF refl])
    fix i assume "i \<in> set [0..<?t]"
    then have "i < ?t" by auto
    from entry [OF this] show "history_entry c i =
        [''Observation '' @ str_nat (i + 1) @ '': ''
           @ (replicate (?t - nat (min (int ?t) (keep_recent c))) masked
              @ drop (?t - nat (min (int ?t) (keep_recent c))) (obss @ [obs])) ! i]
        @ (if i < length obss
           then [''Thought '' @ str_nat (i + 1) @ '': '' @ thoughts c ! i,
                 ''Action '' @ str_nat (i + 1) @ '': '' @ actions c ! i]
           else [])" .
  qed
  finally show ?thesis
    by (simp add: masked_history_def)
qed

text \<open>
  C10.  Let the agent be reset and then stepped once for each observation of \<open>obss\<close>,
  below its step limit, so that the next step, on \<open>obs\<close>, is step
  \<open>t = length obss + 1\<close>.  That step asks the model with the history
  \<open>masked_history\<close>, joined by newlines: for each step in order its observation line,
  masked for all but the last \<open>min t keep_recent\<close> observations (for all when
  \<open>keep_recent\<close> is negative) and verbatim for those, followed for each earlier step
  by its stored thought and action, unchanged.  The action it returns and the thought
  and action it stores are parsed from the model's answer to exactly that prompt.
\<close>

theorem om_history_masks_old_observations:
  assumes "agent_reset (om_ops respond :: (om_core, unit) agent_ops) a instr = Inr ag0"
    and "om_steps respond ag0 obss = Inr ag"
    and "int (length obss) < max_steps a"
  shows "length (thoughts (core ag)) = length obss \<and> length (actions (core ag)) = length obss
    \<and> agent_step (om_ops respond :: (om_core, unit) agent_ops) ag obs
      = Inr (snd (om_parse_thought_action (environment (core a))
                    (respond instr (join_lines
                       (masked_history (keep_recent (core a)) obss obs
                          (thoughts (core ag)) (actions (core ag)))))),
             ag\<lparr>current_step := Suc (length obss),
                last_thought :=
                  fst (om_parse_thought_action (environment (core a))
                    (respond instr (join_lines
                       (masked_history (keep_recent (core a)) obss obs
                          (thoughts (core ag)) (actions (core ag)))))),
                core := (core ag)
                  \<lparr>observations := obss @ [obs],
                   thoughts := thoughts (core ag) @
                     [fst (om_parse_thought_action (environment (core a))
                        (respond instr (join_lines
                           (masked_history (keep_recent (core a)) obss obs
                              (thoughts (core ag)) (actions (core ag))))))],
                   actions := actions (core ag) @
                     [snd (om_parse_thought_action (environment (core a))
                        (respond instr (join_lines
                           (masked_history (keep_recent (core a)) obss obs
                              (thoughts (core ag)) (actions (core ag))))))]\<rparr>\<rparr>)"
proof -
  from om_steps_reached [OF assms(2) om_reset_reached [OF assms(1)]]
  have inv: "om_reached a instr obss ag" by simp
  then have o: "observations (core ag) = obss" and lt: "length (thoughts (core ag)) = length obss"
    and la: "length (actions (core ag)) = length obss"
    and k: "keep_recent (core ag) = keep_recent (core a)"
    and e: "environment (core ag) = environment (core a)"
    and ins: "instruction (core ag) = instr"
    and cs: "current_step ag = length obss" and ms: "max_steps ag = max_steps a"
    by (simp_all add: om_reached_def)
  let ?c1 = "(core ag)\<lparr>observations := obss @ [obs]\<rparr>"
  have h: "history_parts ?c1
           = masked_history (keep_recent (core a)) obss obs (thoughts (core ag)) (actions (core ag))"
    using history_parts_masked [of ?c1 obss obs] o lt la k by simp
  have nl: "\<not> is_step_limit_reached ag"
    using assms(3) cs ms by (simp add: is_step_limit_reached_def)
  show ?thesis
    using nl lt la
    by (simp add: agent_step_def om_ops_def om_decide_def Let_def h e ins o cs)
qed

lemma demo_om_reset:
  "agent_reset (om_ops echo_respond :: (om_core, unit) agent_ops) demo_om ''put mug''
     = Inr (demo_om_after 0 [] [] [] '''')"
  by (simp add: agent_reset_def om_ops_def om_core_reset_def demo_om_def demo_om_after_def)

lemma demo_om_steps:
  "om_steps echo_respond (demo_om_after 0 [] [] [] '''') [''o1'']
     = Inr (demo_om_after 1 [''o1''] [''Observation 1: o1''] [''look''] ''Observation 1: o1'')"
  by code_simp

lemma demo_om_limit: "int (length [''o1'']) < max_steps demo_om"
  by (simp add: demo_om_def)

lemma demo_om_answer:
  "om_parse_thought_action ''alfworld''
     (echo_respond ''put mug''
        (join_lines (masked_history 1 [''o1''] ''o2'' [''Observation 1: o1''] [''look''])))
   = (''Observation 1: [Observation masked]|Thought 1: Observation 1: o1|Action 1: look|Observation 2: o2'',
      ''look'')"
  by code_simp

text \<open>
  Step 2 with \<open>keep_recent = 1\<close>: the model is asked with the first observation masked,
  the first thought and action, and the second observation.
\<close>

theorem om_history_masks_old_observations_witness:
  "agent_reset (om_ops echo_respond :: (om_core, unit) agent_ops) demo_om ''put mug''
     = Inr (demo_om_after 0 [] [] [] '''')
   \<and> om_steps echo_respond (demo_om_after 0 [] [] [] '''') [''o1'']
     = Inr (demo_om_after 1 [''o1''] [''Observation 1: o1''] [''look''] ''Observation 1: o1'')
   \<and> int (length [''o1'']) < max_steps demo_om
   \<and> agent_step (om_ops echo_respond :: (om_core, unit) agent_ops)
        (demo_om_after 1 [''o1''] [''Observation 1: o1''] [''look''] ''Observation 1: o1'') ''o2''
     = Inr (''look'',
            demo_om_after 2 [''o1'', ''o2'']
              [''Observation 1: o1'',
               ''Observation 1: [Observation masked]|Thought 1: Observation 1: o1|Action 1: look|Observation 2: o2'']
              [''look'', ''look'']
              ''Observation 1: [Observation masked]|Thought 1: Observation 1: o1|Action 1: look|Observation 2: o2'')"
proof -
  have k: "keep_recent (core demo_om) = 1" and e: "environment (core demo_om) = ''alfworld''"
    by (simp_all add: demo_om_def)
  have f: "thoughts (core (demo_om_after 1 [''o1''] [''Observation 1: o1''] [''look''] ''Observation 1: o1''))
             = [''Observation 1: o1'']"
      "actions (core (demo_om_after 1 [''o1''] [''Observation 1: o1''] [''look''] ''Observation 1: o1''))
             = [''look'']"
    by (simp_all add: demo_om_after_def)
  from om_history_masks_old_observations [OF demo_om_reset demo_om_steps demo_om_limit, of "''o2''"]
  have "agent_step (om_ops echo_respond :: (om_core, unit) agent_ops)
        (demo_om_after 1 [''o1''] [''Observation 1: o1''] [''look''] ''Observation 1: o1'') ''o2''
     = Inr (''look'',
            demo_om_after 2 [''o1'', ''o2'']
              [''Observation 1: o1'',
               ''Observation 1: [Observation masked]|Thought 1: Observation 1: o1|Action 1: look|Observation 2: o2'']
              [''look'', ''look'']
              ''Observation 1: [Observation masked]|Thought 1: Observation 1: o1|Action 1: look|Observation 2: o2'')"
    unfolding k e f demo_om_answer by (simp add: demo_om_after_def)
  with demo_om_reset demo_om_steps demo_om_limit show ?thesis
    by blast
qed

section \<open>Properties of an episode\<close>


















end
